theory Spec2Isabelle
  imports Main "HOL-Library.Word"
begin

unbundle bit_operations_syntax

section \<open>The C library functions that main.c calls\<close>

text \<open>
  A C string is a \<open>string\<close> without its terminating NUL; \<open>deref s\<close> is \<open>*s\<close>, the
  first byte, which is the NUL of an empty string.
\<close>

definition deref :: "string \<Rightarrow> char" where
  "deref s = (case s of [] \<Rightarrow> CHR 0x00 | c # _ \<Rightarrow> c)"

definition isdigit :: "char \<Rightarrow> bool" where
  "isdigit c = (48 \<le> (of_char c :: nat) \<and> (of_char c :: nat) \<le> 57)"

definition isxdigit :: "char \<Rightarrow> bool" where
  "isxdigit c = (isdigit c
     \<or> (65 \<le> (of_char c :: nat) \<and> (of_char c :: nat) \<le> 70)
     \<or> (97 \<le> (of_char c :: nat) \<and> (of_char c :: nat) \<le> 102))"

definition isspace :: "char \<Rightarrow> bool" where
  "isspace c = ((of_char c :: nat) = 32 \<or> (9 \<le> (of_char c :: nat) \<and> (of_char c :: nat) \<le> 13))"

text \<open>The value of a digit or letter as \<open>strtoul\<close> reads it (letters count from 10).\<close>

definition digit_val :: "char \<Rightarrow> nat option" where
  "digit_val c =
     (let n = (of_char c :: nat) in
      if 48 \<le> n \<and> n \<le> 57 then Some (n - 48)
      else if 97 \<le> n \<and> n \<le> 122 then Some (n - 87)
      else if 65 \<le> n \<and> n \<le> 90 then Some (n - 55)
      else None)"

definition in_base :: "nat \<Rightarrow> char \<Rightarrow> bool" where
  "in_base base c = (case digit_val c of None \<Rightarrow> False | Some d \<Rightarrow> d < base)"

fun digits_value :: "nat \<Rightarrow> nat \<Rightarrow> string \<Rightarrow> nat" where
  "digits_value base acc [] = acc"
| "digits_value base acc (c # cs) =
     digits_value base (acc * base + (case digit_val c of None \<Rightarrow> 0 | Some d \<Rightarrow> d)) cs"

text \<open>A \<open>0x\<close> or \<open>0X\<close> prefix counts only when a hexadecimal digit follows it.\<close>

definition has_0x :: "string \<Rightarrow> bool" where
  "has_0x s = (case s of
       c0 # c1 # c2 # _ \<Rightarrow> c0 = CHR ''0'' \<and> (c1 = CHR ''x'' \<or> c1 = CHR ''X'') \<and> in_base 16 c2
     | _ \<Rightarrow> False)"

text \<open>
  The subject sequence of \<open>strtoul\<close> and \<open>strtol\<close>: leading white space is skipped, one
  sign is read, a hexadecimal prefix is skipped in base 16, and the longest run of
  digits of the base follows. The result is the sign, the digits and the rest.
\<close>

definition subject :: "string \<Rightarrow> nat \<Rightarrow> bool \<times> string \<times> string" where
  "subject nptr base =
     (let s1 = dropWhile isspace nptr;
          neg = (deref s1 = CHR ''-'');
          s2 = (if deref s1 = CHR ''-'' \<or> deref s1 = CHR ''+'' then tl s1 else s1);
          s3 = (if base = 16 \<and> has_0x s2 then drop 2 s2 else s2)
      in (neg, takeWhile (in_base base) s3, dropWhile (in_base base) s3))"

text \<open>
  \<open>strtoul ulmax nptr base\<close> returns the value and the end pointer (the unread rest).
  \<open>ulmax\<close> is \<open>ULONG_MAX\<close> of the platform. Without digits nothing is converted: the
  value is 0 and the end pointer is \<open>nptr\<close>. A magnitude above \<open>ULONG_MAX\<close> gives
  \<open>ULONG_MAX\<close>; a minus sign negates in the unsigned type.
\<close>

definition strtoul :: "nat \<Rightarrow> string \<Rightarrow> nat \<Rightarrow> nat \<times> string" where
  "strtoul ulmax nptr base =
     (case subject nptr base of (neg, ds, rest) \<Rightarrow>
        if ds = [] then (0, nptr)
        else let v = digits_value base 0 ds in
          (if ulmax < v then ulmax
           else if neg then (ulmax + 1 - v) mod (ulmax + 1)
           else v, rest))"

text \<open>
  \<open>strtol\<close> clamps to \<open>LONG_MAX = ULONG_MAX div 2\<close> and \<open>LONG_MIN\<close>. \<open>atoi\<close> is
  \<open>(int) strtol (nptr, NULL, 10)\<close>, as the C library of the target implements it; the
  conversion to \<open>int\<close> keeps the low 32 bits.
\<close>

definition strtol :: "nat \<Rightarrow> string \<Rightarrow> nat \<Rightarrow> int" where
  "strtol ulmax nptr base =
     (case subject nptr base of (neg, ds, rest) \<Rightarrow>
        if ds = [] then 0
        else let v = digits_value base 0 ds; lmax = ulmax div 2 in
          if neg then (if lmax + 1 < v then - int (lmax + 1) else - int v)
          else (if lmax < v then int lmax else int v))"

definition atoi :: "nat \<Rightarrow> string \<Rightarrow> 32 word" where
  "atoi ulmax nptr = word_of_int (strtol ulmax nptr 10)"

section \<open>What main.c takes from its headers and its platform\<close>

text \<open>
  The flag bits come from bdf.h and the orientation bit and the bus number from the
  display headers, none of which main.c defines; they are parameters here, together with
  \<open>ULONG_MAX\<close> and the \<open>__MACOS_X__\<close> switch of the build.
\<close>

record build =
  ULONG_MAX :: nat
  BDF_HEADER :: "32 word"
  BDF_VERBOSE :: "32 word"
  BDF_GPL :: "32 word"
  BDF_NATIVE :: "32 word"
  BDF_ROTATE :: "32 word"
  BDF_FLIP :: "32 word"
  BDF_DROPLAST :: "32 word"
  OSSD_UPDOWN :: "8 word"
  PI2C_BUS :: int
  MACOS_X :: bool

definition DISPLAY_FONT :: "32 word" where
  "DISPLAY_FONT = 0x80000000"

section \<open>The argument loop of main\<close>

text \<open>The local variables of \<open>main\<close> that the options set.\<close>

record locals =
  flags :: "32 word"
  i2c_address :: "8 word"
  orientation :: "8 word"
  ascender :: "32 word"
  gmin :: "32 word"
  gmax :: "32 word"

definition init_locals :: locals where
  "init_locals = \<lparr> flags = 0, i2c_address = 0x3C, orientation = 0, ascender = 0,
                    gmin = 32, gmax = 126 \<rparr>"

text \<open>
  The loop stops early on the help option, and it ends in a crash when it reads through
  \<open>argv[argc]\<close>, which is the null pointer.
\<close>

datatype stop = Help | Segfault

definition arg_is :: "string \<Rightarrow> string option \<Rightarrow> string option \<Rightarrow> bool" where
  "arg_is arg sarg larg =
     (if (case sarg of None \<Rightarrow> False | Some s \<Rightarrow> arg = s) then True
      else if (case larg of None \<Rightarrow> False | Some l \<Rightarrow> arg = l) then True
      else False)"

text \<open>\<open>argv[i]\<close> handed to a string function: a crash when it is the null pointer.\<close>

definition on_arg :: "string list \<Rightarrow> nat \<Rightarrow> (string \<Rightarrow> stop + 'a) \<Rightarrow> stop + 'a" where
  "on_arg argv i k = (if i < length argv then k (argv ! i) else Inl Segfault)"

text \<open>
  Each \<open>if\<close> statement of the loop body is a function from the loop index and the
  locals to the new index and locals. Every one of them reads \<open>argv[i]\<close> with the index
  as the statements before it have left it.
\<close>

type_synonym handler = "nat \<times> locals \<Rightarrow> stop + nat \<times> locals"

definition opt_help :: "string list \<Rightarrow> handler" where
  "opt_help argv = (\<lambda>(i, v). on_arg argv i (\<lambda>a.
     if arg_is a (Some ''-?'') (Some ''help'') then Inl Help else Inr (i, v)))"

text \<open>An option that only sets a bit of \<open>flags\<close>.\<close>

definition opt_flag :: "string \<Rightarrow> string \<Rightarrow> 32 word \<Rightarrow> string list \<Rightarrow> handler" where
  "opt_flag sarg larg fbit argv = (\<lambda>(i, v). on_arg argv i (\<lambda>a.
     Inr (i, if arg_is a (Some sarg) (Some larg) then v\<lparr>flags := flags v OR fbit\<rparr> else v)))"

definition opt_ascender :: "build \<Rightarrow> string list \<Rightarrow> handler" where
  "opt_ascender B argv = (\<lambda>(i, v). on_arg argv i (\<lambda>a.
     if arg_is a (Some ''-a'') (Some ''ascender'') then
       (if i < length argv then
          on_arg argv (i + 1) (\<lambda>n.
            if isdigit (deref n) then Inr (i + 1, v\<lparr>ascender := atoi (ULONG_MAX B) n\<rparr>)
            else Inr (i, v))
        else Inr (i, v))
     else Inr (i, v)))"

text \<open>
  The subset argument: \<open>gmin\<close> is the number at its start, \<open>gmax\<close> the number after a
  minus sign that follows it, and the two are swapped when \<open>gmax < gmin\<close>. The
  assignments keep the low 32 bits of the \<open>unsigned long\<close>.
\<close>

definition parse_subset :: "build \<Rightarrow> string \<Rightarrow> locals \<Rightarrow> locals" where
  "parse_subset B s v =
     (case strtoul (ULONG_MAX B) s 10 of (lo, end) \<Rightarrow>
        let gmin1 = (of_nat lo :: 32 word);
            gmax1 = (if deref end = CHR ''-''
                     then of_nat (fst (strtoul (ULONG_MAX B) (tl end) 10)) else gmin1)
        in if gmax1 < gmin1 then v\<lparr>gmin := gmax1, gmax := gmin1\<rparr>
           else v\<lparr>gmin := gmin1, gmax := gmax1\<rparr>)"

definition opt_subset :: "build \<Rightarrow> string list \<Rightarrow> handler" where
  "opt_subset B argv = (\<lambda>(i, v). on_arg argv i (\<lambda>a.
     if arg_is a (Some ''-s'') (Some ''subset'') then
       (if i < length argv then
          on_arg argv (i + 1) (\<lambda>n.
            if isdigit (deref n) then Inr (i + 1, parse_subset B n v)
            else Inr (i, v))
        else Inr (i, v))
     else Inr (i, v)))"

definition opt_all :: "string list \<Rightarrow> handler" where
  "opt_all argv = (\<lambda>(i, v). on_arg argv i (\<lambda>a.
     Inr (i, if arg_is a (Some ''-a'') (Some ''all'')
             then v\<lparr>gmin := 0, gmax := 0xFFFFFFFF\<rparr> else v)))"

text \<open>The display option sets its flag first and then reads an address in hexadecimal.\<close>

definition parse_address :: "build \<Rightarrow> string \<Rightarrow> locals \<Rightarrow> locals" where
  "parse_address B s v =
     (let i2ca = (of_nat (fst (strtoul (ULONG_MAX B) s 16)) :: 32 word)
      in if i2ca \<noteq> 0 \<and> i2ca < 0x78 then v\<lparr>i2c_address := ucast i2ca\<rparr> else v)"

definition opt_display :: "build \<Rightarrow> string list \<Rightarrow> handler" where
  "opt_display B argv = (\<lambda>(i, v). on_arg argv i (\<lambda>a.
     if arg_is a (Some ''-d'') (Some ''display'') then
       (let v1 = v\<lparr>flags := flags v OR DISPLAY_FONT\<rparr> in
        if i < length argv then
          on_arg argv (i + 1) (\<lambda>n.
            if isxdigit (deref n) then Inr (i + 1, parse_address B n v1)
            else Inr (i, v1))
        else Inr (i, v1))
     else Inr (i, v)))"

definition opt_updown :: "build \<Rightarrow> string list \<Rightarrow> handler" where
  "opt_updown B argv = (\<lambda>(i, v). on_arg argv i (\<lambda>a.
     Inr (i, if arg_is a (Some ''-u'') (Some ''updown'')
             then v\<lparr>orientation := OSSD_UPDOWN B\<rparr> else v)))"

text \<open>Statements in sequence: the first that stops ends the sequence.\<close>

fun seq :: "('a \<Rightarrow> 'e + 'a) list \<Rightarrow> 'a \<Rightarrow> 'e + 'a" where
  "seq [] x = Inr x"
| "seq (h # hs) x = (case h x of Inl e \<Rightarrow> Inl e | Inr y \<Rightarrow> seq hs y)"

text \<open>The loop body, in the order of the source.\<close>

definition handlers :: "build \<Rightarrow> string list \<Rightarrow> handler list" where
  "handlers B argv =
     [opt_help argv,
      opt_flag ''-h'' ''header'' (BDF_HEADER B) argv,
      opt_flag ''-v'' ''verbose'' (BDF_VERBOSE B) argv,
      opt_ascender B argv,
      opt_flag ''-l'' ''line'' (BDF_GPL B) argv,
      opt_subset B argv,
      opt_all argv,
      opt_flag ''-n'' ''native'' (BDF_NATIVE B) argv,
      opt_flag ''-r'' ''rotate'' (BDF_ROTATE B) argv,
      opt_display B argv,
      opt_updown B argv,
      opt_flag ''-f'' ''flip'' (BDF_FLIP B) argv,
      opt_flag ''-l'' ''droplast'' (BDF_DROPLAST B) argv]"

definition body :: "build \<Rightarrow> string list \<Rightarrow> handler" where
  "body B argv = seq (handlers B argv)"

text \<open>Related input and output of a statement, when it does not stop.\<close>

definition rel :: "('a \<Rightarrow> 'a \<Rightarrow> bool) \<Rightarrow> ('a \<Rightarrow> 'e + 'a) \<Rightarrow> bool" where
  "rel R h = (\<forall>x y. h x = Inr y \<longrightarrow> R x y)"

lemma rel_seq:
  assumes refl: "\<And>x. R x x"
    and trans: "\<And>x y z. R x y \<Longrightarrow> R y z \<Longrightarrow> R x z"
    and each: "\<And>h. h \<in> set hs \<Longrightarrow> rel R h"
  shows "rel R (seq hs)"
  using each
proof (induction hs)
  case Nil
  show ?case by (simp add: rel_def refl)
next
  case (Cons h hs)
  have h: "rel R h" and hs: "rel R (seq hs)"
    using Cons by simp_all
  show ?case
    unfolding rel_def
  proof (intro allI impI)
    fix x y
    assume run: "seq (h # hs) x = Inr y"
    then obtain m where m: "h x = Inr m" and rest: "seq hs m = Inr y"
      by (auto split: sum.splits)
    from h m have "R x m" by (simp add: rel_def)
    moreover from hs rest have "R m y" by (simp add: rel_def)
    ultimately show "R x y" by (rule trans)
  qed
qed

text \<open>No statement moves the index back.\<close>

lemma handlers_index:
  "h \<in> set (handlers B argv) \<Longrightarrow> rel (\<lambda>x y. fst x \<le> fst y) h"
  by (auto simp: handlers_def rel_def opt_help_def opt_flag_def opt_ascender_def
      opt_subset_def opt_all_def opt_display_def opt_updown_def on_arg_def Let_def
      split: if_splits)

lemma body_index: "body B argv (i, v) = Inr (j, w) \<Longrightarrow> i \<le> j"
proof -
  have "rel (\<lambda>x y. fst x \<le> fst y) (seq (handlers B argv))"
    by (rule rel_seq) (auto intro: handlers_index)
  then show "body B argv (i, v) = Inr (j, w) \<Longrightarrow> i \<le> j"
    by (auto simp: rel_def body_def)
qed

text \<open>
  \<open>for (int i = 1; i < argc; i++)\<close>: the body runs at the index, and the loop goes on
  one past the index that the body has left.
\<close>

function loop :: "build \<Rightarrow> string list \<Rightarrow> nat \<Rightarrow> locals \<Rightarrow> stop + locals" where
  "loop B argv i v =
     (if i < length argv then
        (case body B argv (i, v) of
           Inl e \<Rightarrow> Inl e
         | Inr (j, w) \<Rightarrow> loop B argv (j + 1) w)
      else Inr v)"
  by pat_completeness auto
termination
  by (relation "measure (\<lambda>(B, argv, i, v). length argv - i)")
    (auto dest!: body_index)

declare loop.simps [simp del]

section \<open>The rest of main: conversion and preview\<close>

text \<open>
  Modelled from the spec: the converted font \<open>bdfe_t\<close>, which is declared in bdf.h
  (missing). The spec: the packed font is the glyph pixel width, the bytes per glyph, the
  glyph count, the first-codepoint offset and the packed bytes of the glyphs. \<open>main\<close>
  reads four of them, under the names \<open>gw\<close>, \<open>bpg\<close>, \<open>chars\<close> (compared with a
  \<open>uint32_t\<close>) and \<open>font\<close>; no line of \<open>main\<close> reads the first-codepoint offset,
  which is the field \<open>first_codepoint\<close> here.
\<close>

record bdfe_t =
  gw :: "32 word"
  bpg :: "32 word"
  chars :: "32 word"
  first_codepoint :: nat
  font :: "8 word list"

text \<open>
  The font handed to the display driver is declared in ossd_i2c.h, which main.c does not
  define either. Lines 185 to 189 assign its five fields, and the casts to \<open>uint8_t\<close> of
  lines 187 and 188 say that the fields are bytes.
\<close>

record ossd_font_t =
  gw :: "8 word"
  gh :: "8 word"
  go :: "8 word"
  gn :: "8 word"
  font :: "8 word list"

datatype text_attr = OSSD_TEXT_REVERSE | OSSD_TEXT_UNDERLINE | OSSD_TEXT_OVERLINE

datatype term_mode = TERM_MODE_RAW | TERM_MODE_CAN

text \<open>
  What \<open>main\<close> does to the outside, one event for each call, in the order of the calls.
  \<open>Call_bdf_convert\<close> carries the arguments of the call; the calls are synchronous, so
  the conversion has returned when the next event happens. The event stands for all that
  \<open>bdf_convert\<close> does, also for the text that it writes while it runs: \<open>main\<close> passes
  the flags of the text output on to it and prints no font itself.
\<close>

datatype event =
    Printf_usage string
  | Call_bdf_convert string "32 word" "32 word" "32 word" "32 word"
  | Fprintf_stderr string
  | Free_font
  | Pi2c_open
  | Pi2c_select "8 word"
  | Pi2c_close
  | Ossd_init "8 word"
  | Ossd_set_user_font ossd_font_t
  | Ossd_select_font_user
  | Ossd_putlx int int string "text_attr list"
  | Ossd_fill_screen
  | Stdin_mode term_mode
  | Stdin_getch

text \<open>
  How a run ends: \<open>main\<close> returns a value, or the process crashes, or the run is still
  going when the fuel is used up. The loops of the preview need not end, so they take
  fuel, and the events up to the end of the fuel are the start of the endless run.
\<close>

datatype outcome = Return int | Crashed | Running

text \<open>
  What the outside gives back: the result of \<open>bdf_convert\<close> (\<open>None\<close> is the null
  pointer), the result of \<open>pi2c_open\<close>, and the keys that \<open>stdin_getch\<close> returns, by the
  number of the call.
\<close>

record world =
  bdf_convert :: "string \<Rightarrow> 32 word \<Rightarrow> 32 word \<Rightarrow> 32 word \<Rightarrow> 32 word \<Rightarrow> bdfe_t option"
  pi2c_open :: int
  stdin_getch :: "nat \<Rightarrow> int"

text \<open>\<open>basename\<close> of libgen.h; the argument \<open>None\<close> is the null pointer.\<close>

definition basename :: "string option \<Rightarrow> string" where
  "basename p =
     (case p of
        None \<Rightarrow> ''.''
      | Some s \<Rightarrow>
          if s = [] then ''.''
          else let t = dropWhile (\<lambda>c. c = CHR ''/'') (rev s) in
            if t = [] then ''/'' else rev (takeWhile (\<lambda>c. c \<noteq> CHR ''/'') t))"

text \<open>The conversion \<open>%d\<close> of \<open>printf\<close>.\<close>

function dec :: "nat \<Rightarrow> string" where
  "dec n = (if n < 10 then [''0123456789'' ! n]
            else dec (n div 10) @ [''0123456789'' ! (n mod 10)])"
  by pat_completeness auto
termination
  by (relation "measure id") auto

declare dec.simps [simp del]

definition printf_d :: "int \<Rightarrow> string" where
  "printf_d k = (if k < 0 then CHR ''-'' # dec (nat (- k)) else dec (nat k))"

text \<open>A buffer read as a C string ends at its first NUL.\<close>

definition cstr :: "string \<Rightarrow> string" where
  "cstr buf = takeWhile (\<lambda>c. c \<noteq> CHR 0x00) buf"

definition prompt :: string where
  "prompt = ''Press any key to continue, '' @ [CHR 0x27] @ ''q'' @ [CHR 0x27] @ '' to exit''
     @ [CHR 0x0A]"

text \<open>Lines 184 to 189: the font for the display driver.\<close>

definition user_font :: "bdfe_t \<Rightarrow> locals \<Rightarrow> ossd_font_t" where
  "user_font fnt v =
     \<lparr> gw = ucast (bdfe_t.gw fnt), gh = ucast (bpg fnt), go = ucast (gmin v),
       gn = ucast (chars fnt), font = bdfe_t.font fnt \<rparr>"

text \<open>
  The preview. The innermost loop puts the glyphs of one row on the display, one
  character for each: \<open>buf[0] = gidx + of.go\<close> keeps the low 8 bits. \<open>n\<close> is
  \<open>font->chars\<close>.
\<close>

function glyph_row ::
  "build \<Rightarrow> ossd_font_t \<Rightarrow> nat \<Rightarrow> int \<Rightarrow> nat \<Rightarrow> nat \<Rightarrow> event list \<times> nat" where
  "glyph_row B f n line i gidx =
     (if int i < 128 div uint (gw f) \<and> gidx < n then
        (case glyph_row B f n line (i + 1) (gidx + 1) of (evs, g) \<Rightarrow>
           ((if MACOS_X B then []
             else [Ossd_putlx line (int i * uint (gw f)) (cstr [char_of (gidx + unat (go f))]) []])
            @ evs, g))
      else ([], gidx))"
  by pat_completeness auto
termination
  by (relation "measure (\<lambda>(B, f, n, line, i, gidx). n - gidx)") auto

declare glyph_row.simps [simp del]

datatype 'a step = Done 'a | Halt outcome

text \<open>
  \<open>for (line = 0; line < 8; line += gh)\<close>: with \<open>gh = 0\<close> it never ends, and with a
  glyph width of 0 the division \<open>128 / of.gw\<close> of the inner loop traps. The first
  argument is the fuel.
\<close>

fun glyph_rows ::
  "nat \<Rightarrow> build \<Rightarrow> ossd_font_t \<Rightarrow> nat \<Rightarrow> int \<Rightarrow> int \<Rightarrow> nat \<Rightarrow> event list \<times> nat step" where
  "glyph_rows 0 B f n h line gidx = ([], Halt Running)"
| "glyph_rows (Suc k) B f n h line gidx =
     (if line < 8 then
        (if gw f = 0 then ([], Halt Crashed)
         else case glyph_row B f n line 0 gidx of (evs, g) \<Rightarrow>
           (case glyph_rows k B f n h (line + h) g of (evs', r) \<Rightarrow> (evs @ evs', r)))
      else ([], Done gidx))"

text \<open>
  The \<open>do ... while (gidx < font->chars)\<close> loop: every page after the first waits for a
  key, and the key \<open>q\<close> leaves the loop. \<open>kn\<close> counts the keys read so far.
\<close>

fun pages ::
  "nat \<Rightarrow> build \<Rightarrow> world \<Rightarrow> ossd_font_t \<Rightarrow> nat \<Rightarrow> int \<Rightarrow> nat \<Rightarrow> nat \<Rightarrow> event list \<times> unit step" where
  "pages 0 B W f n h kn gidx = ([], Halt Running)"
| "pages (Suc k) B W f n h kn gidx =
     (if 0 < gidx \<and> stdin_getch W kn = 113 then ([Fprintf_stderr prompt, Stdin_getch], Done ())
      else
        let wait = (if 0 < gidx
                    then [Fprintf_stderr prompt, Stdin_getch]
                         @ (if MACOS_X B then [] else [Ossd_fill_screen])
                    else []);
            kn' = (if 0 < gidx then kn + 1 else kn)
        in case glyph_rows k B f n h 0 gidx of
             (evs, Halt out) \<Rightarrow> (wait @ evs, Halt out)
           | (evs, Done g) \<Rightarrow>
               if g < n then
                 (case pages k B W f n h kn' g of (evs', r) \<Rightarrow> (wait @ evs @ evs', r))
               else (wait @ evs, Done ()))"

text \<open>Lines 176 to 240: the font goes to the display and the preview runs.\<close>

definition display :: "nat \<Rightarrow> build \<Rightarrow> world \<Rightarrow> string \<Rightarrow> locals \<Rightarrow> bdfe_t \<Rightarrow> event list \<times> outcome" where
  "display fuel B W file v fnt =
     (let f = user_font fnt v;
          h = (uint (gh f) + 7) div 8;
          buf = printf_d (uint (gw f)) @ ''x'' @ printf_d (uint (gh f));
          setup =
            (if MACOS_X B then []
             else [Pi2c_select (i2c_address v), Ossd_init (orientation v),
                   Ossd_set_user_font f, Ossd_select_font_user,
                   Ossd_putlx 0 (- 1) (basename (Some file)) [OSSD_TEXT_REVERSE],
                   Ossd_putlx (8 - h) (- 1) buf [OSSD_TEXT_UNDERLINE, OSSD_TEXT_OVERLINE]])
            @ [Stdin_mode TERM_MODE_RAW, Fprintf_stderr prompt, Stdin_getch];
          leave = [Stdin_mode TERM_MODE_CAN] @ (if MACOS_X B then [] else [Pi2c_close])
            @ [Free_font]
      in if stdin_getch W 0 = 113 then (setup @ leave, Return 0)
         else
           (case pages fuel B W f (unat (chars fnt)) h 1 0 of
              (evs, Halt out) \<Rightarrow>
                (setup @ (if MACOS_X B then [] else [Ossd_fill_screen]) @ evs, out)
            | (evs, Done u) \<Rightarrow>
                (setup @ (if MACOS_X B then [] else [Ossd_fill_screen]) @ evs @ leave, Return 0)))"

text \<open>Lines 163 to 181: the conversion, and what follows it when it fails or when no display is asked for.\<close>

definition convert :: "nat \<Rightarrow> build \<Rightarrow> world \<Rightarrow> string list \<Rightarrow> locals \<Rightarrow> event list \<times> outcome" where
  "convert fuel B W argv v =
     (let file = argv ! (length argv - 1);
          call = Call_bdf_convert file (gmin v) (gmax v) (ascender v) (flags v)
      in case bdf_convert W file (gmin v) (gmax v) (ascender v) (flags v) of
           None \<Rightarrow>
             ([call, Fprintf_stderr (''Unable to convert '' @ [CHR 0x27] @ file
                        @ [CHR 0x27, CHR 0x0A])], Return (- 1))
         | Some fnt \<Rightarrow>
             if flags v AND DISPLAY_FONT = 0 then ([call, Free_font], Return 0)
             else if \<not> MACOS_X B \<and> pi2c_open W < 0 then
               ([call, Pi2c_open,
                 Fprintf_stderr (''Unable to open i2c bus '' @ printf_d (PI2C_BUS B) @ [CHR 0x0A]),
                 Free_font], Return (- 1))
             else
               (case display fuel B W file v fnt of (evs, out) \<Rightarrow>
                  (call # (if MACOS_X B then [] else [Pi2c_open]) @ evs, out)))"

text \<open>
  \<open>main\<close>: the events of the run and how it ends. With fewer than two arguments it
  prints the usage and returns -1; the help option prints the usage and returns 0.
\<close>

definition main :: "nat \<Rightarrow> build \<Rightarrow> world \<Rightarrow> string list \<Rightarrow> event list \<times> outcome" where
  "main fuel B W argv =
     (if length argv < 2 then
        ([Printf_usage (basename (if argv = [] then None else Some (argv ! 0)))], Return (- 1))
      else
        (case loop B argv 1 init_locals of
           Inl Help \<Rightarrow> ([Printf_usage (basename (Some (argv ! 0)))], Return 0)
         | Inl Segfault \<Rightarrow> ([], Crashed)
         | Inr v \<Rightarrow> convert fuel B W argv v))"

section \<open>Parts of bdf_convert, modelled from the specification\<close>

text \<open>
  Modelled from the spec: the bit reversal of the Flip transform of \<open>bdf_convert\<close>
  (bdf.c is missing, and \<open>main\<close> takes the result of \<open>bdf_convert\<close> from the outside).
  The spec: Flip reverses the bit order within a packed byte, bit 0 and bit 7 swap, bit 1
  and bit 6 swap, and so on. The bits of the byte are listed from bit 0 upwards, the list
  is reversed, and the byte is put together again.
\<close>

definition flip_byte :: "8 word \<Rightarrow> 8 word" where
  "flip_byte b = horner_sum of_bool 2 (rev (map (bit b) [0..<8]))"

text \<open>
  Modelled from the spec: the Flip transform of \<open>bdf_convert\<close> on a glyph buffer (bdf.c
  is missing). The spec: Flip reverses the bit order within every packed byte of the
  buffer. A glyph buffer is the list of its packed bytes.
\<close>

definition flip :: "8 word list \<Rightarrow> 8 word list" where
  "flip buf = map flip_byte buf"

text \<open>
  Modelled from the spec: a glyph as the font assembler of \<open>bdf_convert\<close> receives it
  (bdf.c is missing). The spec: a transformed glyph is its packed byte buffer with the
  retained codepoint.
\<close>

record glyph =
  codepoint :: nat
  packed :: "8 word list"

text \<open>
  Modelled from the spec: the subset filter of \<open>bdf_convert\<close> (bdf.c is missing). The
  spec: \<open>retain\<close> is true iff \<open>min \<le> codepoint \<le> max\<close>, inclusive on both ends.
\<close>

definition retain :: "nat \<Rightarrow> 32 word \<Rightarrow> 32 word \<Rightarrow> bool" where
  "retain cp lo hi = (unat lo \<le> cp \<and> cp \<le> unat hi)"

text \<open>
  Modelled from the spec: the glyphs of a font that survive the subset filter of
  \<open>bdf_convert\<close> (bdf.c is missing). The spec: the filter decides for each glyph,
  independent of the order.
\<close>

definition survivors :: "glyph list \<Rightarrow> 32 word \<Rightarrow> 32 word \<Rightarrow> glyph list" where
  "survivors gs lo hi = filter (\<lambda>g. retain (codepoint g) lo hi) gs"

text \<open>The least number of a list, and none for the empty list.\<close>

fun lowest :: "nat list \<Rightarrow> nat option" where
  "lowest [] = None"
| "lowest (c # cs) = Some (fold min cs c)"

text \<open>
  Modelled from the spec: the first-codepoint offset of the packed font of
  \<open>bdf_convert\<close> (bdf.c is missing). The spec: it is the lowest retained codepoint.
\<close>

definition lowest_retained :: "glyph list \<Rightarrow> 32 word \<Rightarrow> 32 word \<Rightarrow> nat option" where
  "lowest_retained gs lo hi = lowest (map codepoint (survivors gs lo hi))"

text \<open>
  Modelled from the spec: the result of \<open>bdf_convert\<close> on a font with the glyphs \<open>gs\<close>
  (bdf.c is missing). The spec: the packed font is the glyph width, the bytes per glyph,
  the number of retained glyphs, the first-codepoint offset, which is the lowest retained
  codepoint, and the buffers of the retained glyphs in ascending codepoint order; the
  conversion fails when no glyph is retained. The glyph width and the bytes per glyph,
  which the transforms decide, are given.
\<close>

definition bdf_convert_spec ::
  "32 word \<Rightarrow> 32 word \<Rightarrow> glyph list \<Rightarrow>
   string \<Rightarrow> 32 word \<Rightarrow> 32 word \<Rightarrow> 32 word \<Rightarrow> 32 word \<Rightarrow> bdfe_t option" where
  "bdf_convert_spec width bytes gs file lo hi asc fl =
     (let kept = sort_key codepoint (survivors gs lo hi)
      in case lowest_retained gs lo hi of
           None \<Rightarrow> None
         | Some c \<Rightarrow>
             Some \<lparr> bdfe_t.gw = width, bpg = bytes, chars = of_nat (length kept),
                    first_codepoint = c, bdfe_t.font = concat (map packed kept) \<rparr>)"

section \<open>Notions for the proofs\<close>

text \<open>
  \<open>takes_value opt val\<close>: the argument \<open>val\<close> is read as the value of the option \<open>opt\<close>
  before it, so that the loop does not come to \<open>val\<close> as an option.
\<close>

definition takes_value :: "string \<Rightarrow> string \<Rightarrow> bool" where
  "takes_value opt val =
     ((opt \<in> {''-a'', ''ascender'', ''-s'', ''subset''} \<and> isdigit (deref val))
      \<or> (opt \<in> {''-d'', ''display''} \<and> isxdigit (deref val)))"

text \<open>From one state of the body to a later one, every index passed over was taken as a value.\<close>

definition skipped :: "string list \<Rightarrow> nat \<times> locals \<Rightarrow> nat \<times> locals \<Rightarrow> bool" where
  "skipped argv x y =
     (fst x \<le> fst y \<and> (\<forall>m. fst x < m \<and> m \<le> fst y \<longrightarrow> takes_value (argv ! (m - 1)) (argv ! m)))"

text \<open>A statement keeps the bits \<open>m\<close> of the flags, and it keeps \<open>gmin \<le> gmax\<close>.\<close>

definition keeps_flag :: "32 word \<Rightarrow> nat \<times> locals \<Rightarrow> nat \<times> locals \<Rightarrow> bool" where
  "keeps_flag m x y = (flags (snd x) AND m = m \<longrightarrow> flags (snd y) AND m = m)"

definition keeps_order :: "nat \<times> locals \<Rightarrow> nat \<times> locals \<Rightarrow> bool" where
  "keeps_order x y = (gmin (snd x) \<le> gmax (snd x) \<longrightarrow> gmin (snd y) \<le> gmax (snd y))"

text \<open>The call of the conversion and the usage text among the events.\<close>

definition is_call :: "event \<Rightarrow> bool" where
  "is_call e = (case e of Call_bdf_convert file lo hi asc fl \<Rightarrow> True | _ \<Rightarrow> False)"

definition is_usage :: "event \<Rightarrow> bool" where
  "is_usage e = (case e of Printf_usage name \<Rightarrow> True | _ \<Rightarrow> False)"

text \<open>Events after the conversion: none of them is the call or the usage text.\<close>

definition later :: "event list \<Rightarrow> bool" where
  "later evs = list_all (\<lambda>e. \<not> is_call e \<and> \<not> is_usage e) evs"

text \<open>The events of the preview loop.\<close>

definition preview_event :: "event \<Rightarrow> bool" where
  "preview_event e =
     (case e of
        Fprintf_stderr msg \<Rightarrow> True
      | Stdin_getch \<Rightarrow> True
      | Ossd_fill_screen \<Rightarrow> True
      | Ossd_putlx line x str attrs \<Rightarrow> True
      | _ \<Rightarrow> False)"

definition previews :: "event list \<Rightarrow> bool" where
  "previews evs = list_all preview_event evs"

text \<open>
  The indices that the loop comes to when it starts at the index \<open>i\<close>: after an option
  that takes the next argument as its value the loop goes on behind the value.
\<close>

function heads :: "string list \<Rightarrow> nat \<Rightarrow> nat list" where
  "heads argv i =
     (if i < length argv then
        i # heads argv
              (if Suc i < length argv \<and> takes_value (argv ! i) (argv ! Suc i)
               then i + 2 else i + 1)
      else [])"
  by pat_completeness auto
termination
  by (relation "measure (\<lambda>(argv, i). length argv - i)") auto

declare heads.simps [simp del]

text \<open>No subset option of the list has an argument after it that starts with a digit.\<close>

fun no_subset_value :: "string list \<Rightarrow> bool" where
  "no_subset_value [] = True"
| "no_subset_value [a] = True"
| "no_subset_value (a # b # rest) =
     ((if a = ''-s'' \<or> a = ''subset'' then \<not> isdigit (deref b) else True)
      \<and> no_subset_value (b # rest))"

text \<open>The same for the arguments after the index \<open>j\<close>, by their indices.\<close>

definition no_subset_after :: "string list \<Rightarrow> nat \<Rightarrow> bool" where
  "no_subset_after argv j =
     (\<forall>m. j < m \<and> Suc m < length argv \<and> (argv ! m = ''-s'' \<or> argv ! m = ''subset'')
        \<longrightarrow> \<not> isdigit (deref (argv ! Suc m)))"

text \<open>The full range, and a statement at an index after \<open>j\<close> that keeps it.\<close>

definition full_range :: "locals \<Rightarrow> bool" where
  "full_range v = (gmin v = 0 \<and> gmax v = 0xFFFFFFFF)"

definition keeps_full :: "nat \<Rightarrow> nat \<times> locals \<Rightarrow> nat \<times> locals \<Rightarrow> bool" where
  "keeps_full j x y = (j < fst x \<and> full_range (snd x) \<longrightarrow> j < fst y \<and> full_range (snd y))"

text \<open>Every \<open>-a\<close> of the list has an argument after it that starts with a digit.\<close>

fun short_a_with_value :: "string list \<Rightarrow> bool" where
  "short_a_with_value [] = True"
| "short_a_with_value [a] = (a \<noteq> ''-a'')"
| "short_a_with_value (a # b # rest) =
     ((if a = ''-a'' then isdigit (deref b) else True) \<and> short_a_with_value (b # rest))"

text \<open>A statement at an index from 1 on, on a word that is no range option, keeps the range.\<close>

definition keeps_default :: "string list \<Rightarrow> nat \<times> locals \<Rightarrow> nat \<times> locals \<Rightarrow> bool" where
  "keeps_default argv x y =
     (1 \<le> fst x \<and> fst x < length argv \<and> argv ! fst x \<notin> {''-s'', ''subset'', ''-a'', ''all''}
      \<longrightarrow> 1 \<le> fst y \<and> fst y < length argv
          \<and> argv ! fst y \<notin> {''-s'', ''subset'', ''-a'', ''all''}
          \<and> gmin (snd y) = gmin (snd x) \<and> gmax (snd y) = gmax (snd x))"

section \<open>Example inputs\<close>

text \<open>
  A build for the examples: 64-bit \<open>unsigned long\<close>, one bit for each flag, and the
  display code compiled in. And three worlds: one where the conversion fails, one where
  it returns a font of three glyphs, and one that converts a given font as the
  specification says; in each the first key pressed is \<open>q\<close>.
\<close>

definition example_build :: build where
  "example_build = \<lparr> ULONG_MAX = 18446744073709551615,
     BDF_HEADER = 1, BDF_VERBOSE = 2, BDF_GPL = 4, BDF_NATIVE = 8, BDF_ROTATE = 16,
     BDF_FLIP = 32, BDF_DROPLAST = 64, OSSD_UPDOWN = 1, PI2C_BUS = 1, MACOS_X = False \<rparr>"

definition failing_world :: world where
  "failing_world = \<lparr> bdf_convert = (\<lambda>file lo hi asc fl. None), pi2c_open = 0,
     stdin_getch = (\<lambda>n. 113) \<rparr>"


text \<open>A font with the glyphs of the codepoints 65, 66 and 67, and a world that converts it.\<close>

definition abc_glyphs :: "glyph list" where
  "abc_glyphs =
     [\<lparr> codepoint = 65, packed = [0x00, 0x00, 0x00, 0x7E, 0x00, 0x00, 0x00, 0x00] \<rparr>,
      \<lparr> codepoint = 66, packed = [0x00, 0x00, 0x00, 0x7C, 0x00, 0x00, 0x00, 0x00] \<rparr>,
      \<lparr> codepoint = 67, packed = [0x00, 0x00, 0x00, 0x3C, 0x00, 0x00, 0x00, 0x00] \<rparr>]"

definition spec_world :: "glyph list \<Rightarrow> world" where
  "spec_world gs = \<lparr> bdf_convert = bdf_convert_spec 8 8 gs, pi2c_open = 0,
     stdin_getch = (\<lambda>n. 113) \<rparr>"

section \<open>Facts about the model\<close>

subsection \<open>From the statements to the body and to the loop\<close>

lemma arg_is_Some [simp]: "arg_is a (Some s) (Some l) = (a = s \<or> a = l)"
  by (simp add: arg_is_def)

lemmas handler_defs = opt_help_def opt_flag_def opt_ascender_def opt_subset_def opt_all_def
  opt_display_def opt_updown_def on_arg_def

text \<open>
  A relation between input and output that is reflexive and transitive and that every
  statement of the body respects holds of the body; what holds at the start of the loop
  and is kept by the body holds at its end.
\<close>

lemma body_rel:
  assumes "\<And>x. R x x" and "\<And>x y z. R x y \<Longrightarrow> R y z \<Longrightarrow> R x z"
    and "\<And>h. h \<in> set (handlers B argv) \<Longrightarrow> rel R h"
    and "body B argv x = Inr y"
  shows "R x y"
proof -
  have "rel R (seq (handlers B argv))"
    using assms(1-3) by (rule rel_seq)
  with assms(4) show ?thesis
    unfolding rel_def body_def by blast
qed

lemma loop_inv:
  assumes "loop B argv i v = Inr r" and "P i v"
    and "\<And>i v k w. P i v \<Longrightarrow> i < length argv \<Longrightarrow> body B argv (i, v) = Inr (k, w) \<Longrightarrow> P (k + 1) w"
  shows "\<exists>k. P k r"
  using assms
proof (induction B argv i v rule: loop.induct)
  case (1 B argv i v)
  show ?case
  proof (cases "i < length argv")
    case False
    with "1.prems"(1,2) show ?thesis by (auto simp: loop.simps)
  next
    case True
    with "1.prems"(1) obtain k w where b: "body B argv (i, v) = Inr (k, w)"
      and l: "loop B argv (k + 1) w = Inr r"
      by (subst (asm) loop.simps) (auto split: sum.splits)
    from "1.prems"(2) True b have "P (k + 1) w" by (rule "1.prems"(3))
    with "1.IH" [OF True b refl l] "1.prems"(3) show ?thesis by blast
  qed
qed

text \<open>The shapes of the statements of the body.\<close>

lemma handlers_cases:
  assumes "h \<in> set (handlers B argv)"
  obtains "h = opt_help argv"
  | s l b where "h = opt_flag s l b argv"
  | "h = opt_ascender B argv"
  | "h = opt_subset B argv"
  | "h = opt_all argv"
  | "h = opt_display B argv"
  | "h = opt_updown B argv"
  using assms unfolding handlers_def by auto

subsection \<open>The arguments that the loop comes to\<close>

text \<open>
  The loop comes to every argument as an option but to those taken as the value of the
  option before them.
\<close>

lemma skipped_refl: "skipped argv x x"
  by (auto simp: skipped_def)

lemma skipped_trans: "skipped argv x y \<Longrightarrow> skipped argv y z \<Longrightarrow> skipped argv x z"
  unfolding skipped_def
  by (metis (no_types, lifting) le_trans not_le_imp_less)

lemma skipped_same: "skipped argv (i, v) (i, w)"
  by (auto simp: skipped_def)

lemma skipped_next:
  assumes "takes_value (argv ! i) (argv ! Suc i)"
  shows "skipped argv (i, v) (Suc i, w)"
proof -
  have "takes_value (argv ! (m - 1)) (argv ! m)" if "i < m" "m \<le> Suc i" for m
  proof -
    from that have "m = Suc i" by simp
    with assms show ?thesis by simp
  qed
  then show ?thesis
    by (simp add: skipped_def)
qed

lemma handlers_skipped:
  assumes "h \<in> set (handlers B argv)"
  shows "rel (skipped argv) h"
  using assms
proof (cases rule: handlers_cases)
  case 1
  then show ?thesis
    by (auto simp: rel_def handler_defs skipped_same split: if_splits)
next
  case (2 s l b)
  then show ?thesis
    by (auto simp: rel_def handler_defs skipped_same split: if_splits)
next
  case 3
  then show ?thesis
    by (auto simp: rel_def handler_defs skipped_same takes_value_def
        intro!: skipped_next split: if_splits)
next
  case 4
  then show ?thesis
    by (auto simp: rel_def handler_defs skipped_same takes_value_def
        intro!: skipped_next split: if_splits)
next
  case 5
  then show ?thesis
    by (auto simp: rel_def handler_defs skipped_same split: if_splits)
next
  case 6
  then show ?thesis
    by (auto simp: rel_def handler_defs skipped_same takes_value_def Let_def
        intro!: skipped_next split: if_splits)
next
  case 7
  then show ?thesis
    by (auto simp: rel_def handler_defs skipped_same split: if_splits)
qed

lemma body_skipped: "body B argv x = Inr y \<Longrightarrow> skipped argv x y"
  using skipped_refl skipped_trans handlers_skipped by (rule body_rel)

lemma loop_visit:
  assumes "loop B argv i v = Inr r" and "i \<le> j" and "j < length argv"
    and "\<not> takes_value (argv ! (j - 1)) (argv ! j)"
  shows "\<exists>w. loop B argv j w = Inr r"
  using assms
proof (induction B argv i v rule: loop.induct)
  case (1 B argv i v)
  show ?case
  proof (cases "i = j")
    case True
    with "1.prems"(1) show ?thesis by blast
  next
    case False
    with "1.prems" have lt: "i < length argv" and ij: "i < j" by simp_all
    with "1.prems"(1) obtain k w where b: "body B argv (i, v) = Inr (k, w)"
      and l: "loop B argv (k + 1) w = Inr r"
      by (subst (asm) loop.simps) (auto split: sum.splits)
    have "k + 1 \<le> j"
    proof (rule ccontr)
      assume "\<not> k + 1 \<le> j"
      with ij have "i < j \<and> j \<le> k" by simp
      with body_skipped [OF b] have "takes_value (argv ! (j - 1)) (argv ! j)"
        by (simp add: skipped_def)
      with "1.prems"(4) show False by simp
    qed
    from "1.IH" [OF lt b refl l this "1.prems"(3,4)] show ?thesis .
  qed
qed

subsection \<open>Flags are only ever set, and the range stays in order\<close>

lemma or_keeps_bits:
  fixes f b m :: "32 word"
  assumes "f AND m = m"
  shows "(f OR b) AND m = m"
proof (rule bit_eqI)
  fix n
  from assms have "bit m n \<Longrightarrow> bit f n"
    by (metis bit_and_iff)
  then show "bit ((f OR b) AND m) n = bit m n"
    by (auto simp: bit_and_iff bit_or_iff)
qed

lemma flags_parse_subset [simp]: "flags (parse_subset B s v) = flags v"
  by (simp add: parse_subset_def Let_def split: prod.splits)

lemma flags_parse_address [simp]: "flags (parse_address B s v) = flags v"
  by (simp add: parse_address_def Let_def)

lemma range_parse_address [simp]:
  "gmin (parse_address B s v) = gmin v" "gmax (parse_address B s v) = gmax v"
  by (simp_all add: parse_address_def Let_def)

lemma parse_subset_ordered: "gmin (parse_subset B s v) \<le> gmax (parse_subset B s v)"
  by (auto simp: parse_subset_def Let_def split: prod.splits)

lemma handlers_keeps_flag:
  assumes "h \<in> set (handlers B argv)"
  shows "rel (keeps_flag m) h"
  using assms
  by (cases rule: handlers_cases)
    (auto simp: rel_def handler_defs keeps_flag_def or_keeps_bits Let_def split: if_splits)

lemma body_keeps_flag:
  assumes "body B argv (i, v) = Inr (k, w)" and "flags v AND m = m"
  shows "flags w AND m = m"
proof -
  have "keeps_flag m (i, v) (k, w)"
  proof (rule body_rel [OF _ _ handlers_keeps_flag assms(1)])
    show "keeps_flag m x x" for x by (simp add: keeps_flag_def)
    show "keeps_flag m x y \<Longrightarrow> keeps_flag m y z \<Longrightarrow> keeps_flag m x z" for x y z
      by (simp add: keeps_flag_def)
  qed
  with assms(2) show ?thesis by (simp add: keeps_flag_def)
qed

lemma loop_keeps_flag:
  assumes "loop B argv i v = Inr r" and "flags v AND m = m"
  shows "flags r AND m = m"
proof -
  have "\<exists>k::nat. flags r AND m = m"
    using assms(1,2)
  proof (rule loop_inv [where P = "\<lambda>i v. flags v AND m = m"])
    show "body B argv (i, v) = Inr (k, w) \<Longrightarrow> flags v AND m = m \<Longrightarrow> flags w AND m = m" for i v k w
      by (rule body_keeps_flag)
  qed
  then show ?thesis by simp
qed

lemma handlers_keeps_order:
  assumes "h \<in> set (handlers B argv)"
  shows "rel keeps_order h"
  using assms
  by (cases rule: handlers_cases)
    (auto simp: rel_def handler_defs keeps_order_def parse_subset_ordered Let_def split: if_splits)

lemma body_keeps_order:
  assumes "body B argv (i, v) = Inr (k, w)" and "gmin v \<le> gmax v"
  shows "gmin w \<le> gmax w"
proof -
  have "keeps_order (i, v) (k, w)"
  proof (rule body_rel [OF _ _ handlers_keeps_order assms(1)])
    show "keeps_order x x" for x by (simp add: keeps_order_def)
    show "keeps_order x y \<Longrightarrow> keeps_order y z \<Longrightarrow> keeps_order x z" for x y z
      by (simp add: keeps_order_def)
  qed
  with assms(2) show ?thesis by (simp add: keeps_order_def)
qed

lemma loop_keeps_order:
  assumes "loop B argv i v = Inr r" and "gmin v \<le> gmax v"
  shows "gmin r \<le> gmax r"
proof -
  have "\<exists>k::nat. gmin r \<le> gmax r"
    using assms(1,2)
  proof (rule loop_inv [where P = "\<lambda>i v. gmin v \<le> gmax v"])
    show "body B argv (i, v) = Inr (k, w) \<Longrightarrow> gmin v \<le> gmax v \<Longrightarrow> gmin w \<le> gmax w" for i v k w
      by (rule body_keeps_order)
  qed
  then show ?thesis by simp
qed

subsection \<open>The events of a run\<close>

lemma later_simps [simp]:
  "later []"
  "later (e # evs) = (\<not> is_call e \<and> \<not> is_usage e \<and> later evs)"
  "later (evs @ evs') = (later evs \<and> later evs')"
  by (auto simp: later_def)

lemma is_call_simps [simp]:
  "is_call (Call_bdf_convert file lo hi asc fl)"
  "\<not> is_call (Printf_usage name)"
  "\<not> is_call (Fprintf_stderr msg)"
  "\<not> is_call Free_font"
  "\<not> is_call Pi2c_open"
  "\<not> is_call (Pi2c_select a)"
  "\<not> is_call Pi2c_close"
  "\<not> is_call (Ossd_init orient)"
  "\<not> is_call (Ossd_set_user_font f)"
  "\<not> is_call Ossd_select_font_user"
  "\<not> is_call (Ossd_putlx line x str attrs)"
  "\<not> is_call Ossd_fill_screen"
  "\<not> is_call (Stdin_mode md)"
  "\<not> is_call Stdin_getch"
  by (simp_all add: is_call_def)

lemma is_usage_simps [simp]:
  "\<not> is_usage (Call_bdf_convert file lo hi asc fl)"
  "is_usage (Printf_usage name)"
  "\<not> is_usage (Fprintf_stderr msg)"
  "\<not> is_usage Free_font"
  "\<not> is_usage Pi2c_open"
  "\<not> is_usage (Pi2c_select a)"
  "\<not> is_usage Pi2c_close"
  "\<not> is_usage (Ossd_init orient)"
  "\<not> is_usage (Ossd_set_user_font f)"
  "\<not> is_usage Ossd_select_font_user"
  "\<not> is_usage (Ossd_putlx line x str attrs)"
  "\<not> is_usage Ossd_fill_screen"
  "\<not> is_usage (Stdin_mode md)"
  "\<not> is_usage Stdin_getch"
  by (simp_all add: is_usage_def)

lemma previews_simps [simp]:
  "previews []"
  "previews (e # evs) = (preview_event e \<and> previews evs)"
  "previews (evs @ evs') = (previews evs \<and> previews evs')"
  by (auto simp: previews_def)

lemma preview_event_simps [simp]:
  "preview_event (Fprintf_stderr msg)"
  "preview_event Stdin_getch"
  "preview_event Ossd_fill_screen"
  "preview_event (Ossd_putlx line x str attrs)"
  by (simp_all add: preview_event_def)

lemma previews_fst_case [simp]:
  "previews (fst (case p of (evs', r) \<Rightarrow> (F evs', r))) = previews (F (fst p))"
  by (cases p) simp

lemma glyph_row_previews: "previews (fst (glyph_row B f n line i gidx))"
proof (induction B f n line i gidx rule: glyph_row.induct)
  case (1 B f n line i gidx)
  then show ?case
    by (subst glyph_row.simps) (auto split: prod.splits)
qed

lemma glyph_rows_previews: "previews (fst (glyph_rows k B f n h line gidx))"
proof (induction k arbitrary: line gidx)
  case 0
  show ?case by simp
next
  case (Suc k)
  have "previews (fst (glyph_row B f n line 0 gidx))"
    by (rule glyph_row_previews)
  moreover have "previews (fst (glyph_rows k B f n h (line + h) g))" for g
    by (rule Suc.IH)
  ultimately show ?case
    by (auto split: prod.splits)
qed

lemma pages_previews: "previews (fst (pages k B W f n h kn gidx))"
proof (induction k arbitrary: kn gidx)
  case 0
  show ?case by simp
next
  case (Suc k)
  have rows: "previews (fst (glyph_rows k B f n h 0 gidx))"
    by (rule glyph_rows_previews)
  have rest: "previews (fst (pages k B W f n h kn' g))" for kn' g
    by (rule Suc.IH)
  show ?case
  proof (cases "glyph_rows k B f n h 0 gidx")
    case (Pair evs r)
    with rows have evs: "previews evs" by simp
    show ?thesis
    proof (cases r)
      case (Halt out)
      with Pair evs show ?thesis by (simp add: Let_def)
    next
      case (Done g)
      with Pair evs rest show ?thesis by (simp add: Let_def)
    qed
  qed
qed

lemma previews_later: "previews evs \<Longrightarrow> later evs"
  by (induction evs) (auto simp: preview_event_def split: event.splits)

lemma previews_no_upload: "previews evs \<Longrightarrow> Ossd_set_user_font f \<notin> set evs"
  by (induction evs) (auto simp: preview_event_def split: event.splits)

lemma pages_later: "later (fst (pages k B W f n h kn gidx))"
  using pages_previews by (rule previews_later)

lemma display_upload:
  assumes "Ossd_set_user_font f \<in> set (fst (display fuel B W file v fnt))"
  shows "f = user_font fnt v"
proof -
  obtain evs r where p: "pages fuel B W (user_font fnt v) (unat (chars fnt))
      ((uint (gh (user_font fnt v)) + 7) div 8) 1 0 = (evs, r)"
    by (cases "pages fuel B W (user_font fnt v) (unat (chars fnt))
      ((uint (gh (user_font fnt v)) + 7) div 8) 1 0")
  with pages_previews [of fuel B W "user_font fnt v" "unat (chars fnt)"
      "(uint (gh (user_font fnt v)) + 7) div 8" 1 0]
  have "previews evs" by simp
  then have "Ossd_set_user_font f \<notin> set evs"
    by (rule previews_no_upload)
  with assms p show ?thesis
    by (cases r) (auto simp: display_def Let_def split: if_splits)
qed

lemma display_later: "later (fst (display fuel B W file v fnt))"
proof -
  obtain evs r where p: "pages fuel B W (user_font fnt v) (unat (chars fnt))
      ((uint (gh (user_font fnt v)) + 7) div 8) 1 0 = (evs, r)"
    by (cases "pages fuel B W (user_font fnt v) (unat (chars fnt))
      ((uint (gh (user_font fnt v)) + 7) div 8) 1 0")
  with pages_later [of fuel B W "user_font fnt v" "unat (chars fnt)"
      "(uint (gh (user_font fnt v)) + 7) div 8" 1 0]
  have "later evs" by simp
  with p show ?thesis
    by (cases r) (simp_all add: display_def Let_def)
qed

text \<open>The events of the conversion step: the call comes first and only once.\<close>

lemma convert_events:
  "\<exists>rest. fst (convert fuel B W argv v) =
      Call_bdf_convert (argv ! (length argv - 1)) (gmin v) (gmax v) (ascender v) (flags v) # rest
    \<and> later rest"
proof (cases "bdf_convert W (argv ! (length argv - 1)) (gmin v) (gmax v) (ascender v) (flags v)")
  case None
  then show ?thesis
    by (simp add: convert_def Let_def)
next
  case (Some fnt)
  obtain evs out where d: "display fuel B W (argv ! (length argv - 1)) v fnt = (evs, out)"
    by (cases "display fuel B W (argv ! (length argv - 1)) v fnt")
  with display_later [of fuel B W "argv ! (length argv - 1)" v fnt] have "later evs"
    by simp
  with Some d show ?thesis
    by (simp add: convert_def Let_def)
qed

lemma later_no_call: "later evs \<Longrightarrow> e \<in> set evs \<Longrightarrow> \<not> is_call e \<and> \<not> is_usage e"
  by (simp add: later_def list_all_iff)

lemma main_cases:
  obtains (usage) name r where "main fuel B W argv = ([Printf_usage name], Return r)"
  | (crash) "main fuel B W argv = ([], Crashed)"
  | (conv) v rest where "2 \<le> length argv" and "loop B argv 1 init_locals = Inr v"
      and "fst (main fuel B W argv) =
        Call_bdf_convert (argv ! (length argv - 1)) (gmin v) (gmax v) (ascender v) (flags v) # rest"
      and "later rest"
proof (cases "length argv < 2")
  case True
  then show ?thesis
    by (intro usage) (simp add: main_def)
next
  case False
  show ?thesis
  proof (cases "loop B argv 1 init_locals")
    case (Inl s)
    with False show ?thesis
      by (cases s) (auto simp: main_def intro: usage crash)
  next
    case (Inr v)
    obtain rest where "fst (convert fuel B W argv v) =
        Call_bdf_convert (argv ! (length argv - 1)) (gmin v) (gmax v) (ascender v) (flags v) # rest"
      and "later rest"
      using convert_events by blast
    with False Inr show ?thesis
      by (intro conv [of v rest]) (simp_all add: main_def)
  qed
qed

lemma main_call:
  assumes "Call_bdf_convert file lo hi asc fl \<in> set (fst (main fuel B W argv))"
  shows "\<exists>v. 2 \<le> length argv \<and> loop B argv 1 init_locals = Inr v
    \<and> file = argv ! (length argv - 1) \<and> lo = gmin v \<and> hi = gmax v \<and> asc = ascender v
    \<and> fl = flags v"
proof (cases fuel B W argv rule: main_cases)
  case (usage name r)
  with assms show ?thesis by simp
next
  case crash
  with assms show ?thesis by simp
next
  case (conv v rest)
  from later_no_call [OF conv(4), of "Call_bdf_convert file lo hi asc fl"]
  have "Call_bdf_convert file lo hi asc fl \<notin> set rest" by auto
  with assms conv show ?thesis by auto
qed

subsection \<open>The iteration at the short option -l\<close>

lemma deref_simps [simp]: "deref [] = CHR 0x00" "deref (c # cs) = c"
  by (simp_all add: deref_def)

lemma not_takes_minus [simp]: "\<not> takes_value opt (CHR ''-'' # cs)"
  by (simp add: takes_value_def isdigit_def isxdigit_def)

lemma in_tl_nth: "a \<in> set (tl argv) \<Longrightarrow> \<exists>j. 1 \<le> j \<and> j < length argv \<and> argv ! j = a"
proof (cases argv)
  case Nil
  assume "a \<in> set (tl argv)"
  with Nil show ?thesis by simp
next
  case (Cons x xs)
  assume "a \<in> set (tl argv)"
  with Cons obtain k where "k < length xs" "xs ! k = a"
    by (auto simp: in_set_conv_nth)
  with Cons have "1 \<le> Suc k \<and> Suc k < length argv \<and> argv ! Suc k = a" by simp
  then show ?thesis by blast
qed

lemma nth_in_tl: "1 \<le> j \<Longrightarrow> j < length argv \<Longrightarrow> argv ! j \<in> set (tl argv)"
  by (cases argv; cases j) auto

lemma loop_step:
  assumes "loop B argv i v = Inr r" and "i < length argv"
  obtains k w where "body B argv (i, v) = Inr (k, w)" and "loop B argv (k + 1) w = Inr r"
  using assms by (subst (asm) loop.simps) (auto split: sum.splits)

lemma body_short_l:
  assumes "i < length argv" and "argv ! i = ''-l''"
  shows "body B argv (i, v) =
    Inr (i, v\<lparr>flags := (flags v OR BDF_GPL B) OR BDF_DROPLAST B\<rparr>)"
  using assms by (simp add: body_def handlers_def handler_defs)

lemma or_has_bits:
  fixes f g d :: "32 word"
  shows "((f OR g) OR d) AND g = g" and "((f OR g) OR d) AND d = d"
  by (rule bit_eqI; auto simp: bit_and_iff bit_or_iff)+

text \<open>Runs of the examples, by evaluation.\<close>

lemma example_loop_l:
  "loop example_build [''bdfe'', ''-l'', ''x.bdf''] 1 init_locals =
     Inr (init_locals\<lparr>flags := 68\<rparr>)"
  by (simp add: loop.simps body_def handlers_def handler_defs example_build_def init_locals_def)

lemma example_loop_plain:
  "loop example_build [''bdfe'', ''x.bdf''] 1 init_locals = Inr init_locals"
  by (simp add: loop.simps body_def handlers_def handler_defs)

lemma example_loop_display:
  "loop example_build [''bdfe'', ''-d'', ''3D'', ''x.bdf''] 1 init_locals =
     Inr (init_locals\<lparr>flags := 0x80000000, i2c_address := 0x3D\<rparr>)"
  by (simp add: loop.simps body_def handlers_def handler_defs example_build_def init_locals_def
      isxdigit_def isdigit_def parse_address_def strtoul_def subject_def isspace_def has_0x_def
      in_base_def digit_val_def DISPLAY_FONT_def Let_def)


text \<open>The range that reaches the conversion is normalised.\<close>

lemma normalised_range:
  assumes "Call_bdf_convert file lo hi asc fl \<in> set (fst (main fuel B W argv))"
  shows "lo \<le> hi"
proof -
  from main_call [OF assms] obtain v where run: "loop B argv 1 init_locals = Inr v"
    and v: "lo = gmin v" "hi = gmax v" by blast
  have "gmin init_locals \<le> gmax init_locals"
    by (simp add: init_locals_def)
  with run have "gmin v \<le> gmax v" by (rule loop_keeps_order)
  with v show ?thesis by simp
qed

subsection \<open>The subset argument of two decimal numbers\<close>







lemmas number_defs = isxdigit_def isdigit_def strtoul_def subject_def isspace_def has_0x_def
  in_base_def digit_val_def



subsection \<open>The full range, and the options that the loop comes to\<close>

lemma handlers_keeps_full:
  assumes "no_subset_after argv j"
    and "h \<in> set (handlers B argv)"
  shows "rel (keeps_full j) h"
  using assms(2)
proof (cases rule: handlers_cases)
  case 4
  then show ?thesis
    using assms(1)
    by (auto simp: rel_def handler_defs keeps_full_def no_subset_after_def split: if_splits)
qed (auto simp: rel_def handler_defs keeps_full_def full_range_def Let_def split: if_splits)

lemma body_keeps_full:
  assumes "no_subset_after argv j"
    and "body B argv (i, v) = Inr (k, w)" and "j < i" and "full_range v"
  shows "full_range w"
proof -
  have "keeps_full j (i, v) (k, w)"
  proof (rule body_rel [OF _ _ handlers_keeps_full [OF assms(1)] assms(2)])
    show "keeps_full j x x" for x by (simp add: keeps_full_def)
    show "keeps_full j x y \<Longrightarrow> keeps_full j y z \<Longrightarrow> keeps_full j x z" for x y z
      by (simp add: keeps_full_def)
  qed
  with assms(3,4) show ?thesis by (simp add: keeps_full_def)
qed

lemma loop_keeps_full:
  assumes "no_subset_after argv j"
    and "loop B argv i v = Inr r" and "j < i" and "full_range v"
  shows "full_range r"
proof -
  have "\<exists>k::nat. j < k \<and> full_range r"
    using assms(2)
  proof (rule loop_inv [where P = "\<lambda>i w. j < i \<and> full_range w"])
    show "j < i \<and> full_range v"
      using assms(3,4) by simp
    show "j < k + 1 \<and> full_range w'"
      if "j < i' \<and> full_range w" and "body B argv (i', w) = Inr (k, w')"
      for i' w k w'
      using body_keeps_full [OF assms(1) that(2)] body_index [OF that(2)] that(1) by simp
  qed
  then show ?thesis by simp
qed

lemma body_all:
  assumes "i < length argv" and "argv ! i = ''all''"
  shows "body B argv (i, v) = Inr (i, v\<lparr>gmin := 0, gmax := 0xFFFFFFFF\<rparr>)"
  using assms by (simp add: body_def handlers_def handler_defs)

lemma body_short_a:
  assumes "Suc i < length argv" and "argv ! i = ''-a''" and "\<not> isdigit (deref (argv ! Suc i))"
  shows "body B argv (i, v) = Inr (i, v\<lparr>gmin := 0, gmax := 0xFFFFFFFF\<rparr>)"
  using assms by (simp add: body_def handlers_def handler_defs)

lemma body_short_a_last:
  assumes "Suc i = length argv" and "argv ! i = ''-a''"
  shows "body B argv (i, v) = Inl Segfault"
  using assms by (simp add: body_def handlers_def handler_defs)

lemma digit_not_option:
  assumes "isdigit (deref s)"
  shows "s \<noteq> ''-?''" "s \<noteq> ''help''" "s \<noteq> ''-h''" "s \<noteq> ''header''" "s \<noteq> ''-v''"
    "s \<noteq> ''verbose''" "s \<noteq> ''-a''" "s \<noteq> ''ascender''" "s \<noteq> ''-l''" "s \<noteq> ''line''"
    "s \<noteq> ''-s''" "s \<noteq> ''subset''" "s \<noteq> ''all''" "s \<noteq> ''-n''" "s \<noteq> ''native''"
    "s \<noteq> ''-r''" "s \<noteq> ''rotate''" "s \<noteq> ''-d''" "s \<noteq> ''display''" "s \<noteq> ''-u''"
    "s \<noteq> ''updown''" "s \<noteq> ''-f''" "s \<noteq> ''flip''" "s \<noteq> ''droplast''"
  using assms by (auto simp: isdigit_def deref_def)

lemma body_short_a_digit:
  assumes "Suc i < length argv" and "argv ! i = ''-a''" and "isdigit (deref (argv ! Suc i))"
  shows "body B argv (i, v) = Inr (Suc i, v\<lparr>ascender := atoi (ULONG_MAX B) (argv ! Suc i)\<rparr>)"
  using assms digit_not_option [OF assms(3)]
  by (simp add: body_def handlers_def handler_defs)

lemma none_after:
  assumes "set (drop (Suc j) argv) \<inter> {''-s'', ''subset''} = {}"
  shows "no_subset_after argv j"
  unfolding no_subset_after_def
proof (intro allI impI)
  fix m
  assume m: "j < m \<and> Suc m < length argv \<and> (argv ! m = ''-s'' \<or> argv ! m = ''subset'')"
  then have "drop (Suc j) argv ! (m - Suc j) = argv ! m" by simp
  moreover from m have "m - Suc j < length (drop (Suc j) argv)" by auto
  ultimately have "argv ! m \<in> set (drop (Suc j) argv)"
    by (metis nth_mem)
  with assms m show "\<not> isdigit (deref (argv ! Suc m))" by blast
qed

lemma no_subset_value_nth:
  assumes "no_subset_value xs" and "Suc m < length xs" and "xs ! m = ''-s'' \<or> xs ! m = ''subset''"
  shows "\<not> isdigit (deref (xs ! Suc m))"
  using assms
proof (induction xs arbitrary: m rule: no_subset_value.induct)
  case 1
  then show ?case by simp
next
  case (2 a)
  then show ?case by simp
next
  case (3 a b rest)
  show ?case
  proof (cases m)
    case 0
    with "3.prems" show ?thesis by auto
  next
    case (Suc n)
    with "3.prems" have "no_subset_value (b # rest)" "Suc n < length (b # rest)"
      "(b # rest) ! n = ''-s'' \<or> (b # rest) ! n = ''subset''" by simp_all
    then have "\<not> isdigit (deref ((b # rest) ! Suc n))" by (rule "3.IH")
    with Suc show ?thesis by simp
  qed
qed

lemma no_subset_value_after:
  assumes "no_subset_value (drop (Suc j) argv)"
  shows "no_subset_after argv j"
  unfolding no_subset_after_def
proof (intro allI impI)
  fix m
  assume m: "j < m \<and> Suc m < length argv \<and> (argv ! m = ''-s'' \<or> argv ! m = ''subset'')"
  then obtain n where n: "m = Suc j + n" by (metis Suc_leI le_Suc_ex)
  with m have "Suc n < length (drop (Suc j) argv)"
    and "drop (Suc j) argv ! n = ''-s'' \<or> drop (Suc j) argv ! n = ''subset''"
    by (auto simp: add.commute)
  with assms have "\<not> isdigit (deref (drop (Suc j) argv ! Suc n))"
    by (rule no_subset_value_nth)
  with m n show "\<not> isdigit (deref (argv ! Suc m))" by (simp add: add.commute)
qed

lemma body_index_exact:
  assumes "body B argv (i, v) = Inr (k, w)" and "i < length argv"
  shows "k = (if Suc i < length argv \<and> takes_value (argv ! i) (argv ! Suc i) then Suc i else i)"
proof -
  consider (usage) "argv ! i = ''-?'' \<or> argv ! i = ''help''"
    | (asc) "argv ! i = ''-a'' \<or> argv ! i = ''ascender''"
    | (sub) "argv ! i = ''-s'' \<or> argv ! i = ''subset''"
    | (disp) "argv ! i = ''-d'' \<or> argv ! i = ''display''"
    | (other) "argv ! i \<notin> {''-?'', ''help'', ''-a'', ''ascender'', ''-s'', ''subset'',
        ''-d'', ''display''}"
    by blast
  then show ?thesis
  proof cases
    case usage
    with assms show ?thesis
      by (auto simp: body_def handlers_def handler_defs)
  next
    case asc
    show ?thesis
    proof (cases "Suc i < length argv")
      case False
      with asc assms show ?thesis
        by (auto simp: body_def handlers_def handler_defs)
    next
      case True
      show ?thesis
      proof (cases "isdigit (deref (argv ! Suc i))")
        case d: True
        with asc True assms digit_not_option [OF d] show ?thesis
          by (auto simp: body_def handlers_def handler_defs takes_value_def)
      next
        case False
        with asc True assms show ?thesis
          by (auto simp: body_def handlers_def handler_defs takes_value_def)
      qed
    qed
  next
    case sub
    show ?thesis
    proof (cases "Suc i < length argv")
      case False
      with sub assms show ?thesis
        by (auto simp: body_def handlers_def handler_defs)
    next
      case True
      show ?thesis
      proof (cases "isdigit (deref (argv ! Suc i))")
        case d: True
        with sub True assms digit_not_option [OF d] show ?thesis
          by (auto simp: body_def handlers_def handler_defs takes_value_def)
      next
        case False
        with sub True assms show ?thesis
          by (auto simp: body_def handlers_def handler_defs takes_value_def)
      qed
    qed
  next
    case disp
    show ?thesis
    proof (cases "Suc i < length argv")
      case False
      with disp assms show ?thesis
        by (auto simp: body_def handlers_def handler_defs Let_def)
    next
      case True
      show ?thesis
      proof (cases "isxdigit (deref (argv ! Suc i))")
        case d: True
        with disp True assms show ?thesis
          by (auto simp: body_def handlers_def handler_defs takes_value_def Let_def)
      next
        case False
        with disp True assms show ?thesis
          by (auto simp: body_def handlers_def handler_defs takes_value_def Let_def)
      qed
    qed
  next
    case other
    with assms show ?thesis
      by (auto simp: body_def handlers_def handler_defs takes_value_def)
  qed
qed

lemma heads_bounds: "j \<in> set (heads argv i) \<Longrightarrow> i \<le> j \<and> j < length argv"
proof (induction argv i rule: heads.induct)
  case (1 argv i)
  show ?case
  proof (cases "i < length argv")
    case False
    with "1.prems" show ?thesis by (simp add: heads.simps)
  next
    case True
    with "1.prems" have "j = i \<or> j \<in> set (heads argv
        (if Suc i < length argv \<and> takes_value (argv ! i) (argv ! Suc i) then i + 2 else i + 1))"
      by (subst (asm) heads.simps) simp
    with "1.IH" [OF True] True show ?thesis by (auto split: if_splits)
  qed
qed

lemma loop_reaches:
  assumes "loop B argv i v = Inr r" and "j \<in> set (heads argv i)"
  shows "\<exists>w. loop B argv j w = Inr r"
  using assms
proof (induction B argv i v rule: loop.induct)
  case (1 B argv i v)
  from heads_bounds [OF "1.prems"(2)] have lt: "i < length argv" by simp
  show ?case
  proof (cases "i = j")
    case True
    with "1.prems"(1) show ?thesis by blast
  next
    case False
    from "1.prems"(1) lt obtain k w where b: "body B argv (i, v) = Inr (k, w)"
      and l: "loop B argv (k + 1) w = Inr r" by (rule loop_step)
    from body_index_exact [OF b lt]
    have k: "k + 1 =
        (if Suc i < length argv \<and> takes_value (argv ! i) (argv ! Suc i) then i + 2 else i + 1)"
      by simp
    from "1.prems"(2) lt False have "j \<in> set (heads argv
        (if Suc i < length argv \<and> takes_value (argv ! i) (argv ! Suc i) then i + 2 else i + 1))"
      by (subst (asm) heads.simps) simp
    with k have "j \<in> set (heads argv (k + 1))" by simp
    from "1.IH" [OF lt b refl l this] show ?thesis .
  qed
qed


lemma example_loop_display_all:
  "loop example_build [''bdfe'', ''-d'', ''display'', ''all'', ''-s'', ''x.bdf''] 1 init_locals =
     Inr (init_locals\<lparr>flags := 0x80000000, i2c_address := 0x0D, gmin := 0,
       gmax := 4294967295\<rparr>)"
  by (simp add: loop.simps body_def handlers_def handler_defs example_build_def init_locals_def
      parse_address_def number_defs DISPLAY_FONT_def Let_def)

lemma example_loop_all_subset:
  "loop example_build [''bdfe'', ''all'', ''-s'', ''65-66'', ''x.bdf''] 1 init_locals =
     Inr (init_locals\<lparr>gmin := 65, gmax := 66\<rparr>)"
  by (simp add: loop.simps body_def handlers_def handler_defs example_build_def init_locals_def
      parse_subset_def number_defs Let_def)

lemma example_loop_a:
  "loop example_build [''bdfe'', ''-a'', ''x.bdf''] 1 init_locals =
     Inr (init_locals\<lparr>gmin := 0, gmax := 4294967295\<rparr>)"
  by (simp add: loop.simps body_def handlers_def handler_defs example_build_def init_locals_def
      isdigit_def)

lemma example_loop_a_digit:
  "loop example_build [''bdfe'', ''-a'', ''5'', ''x.bdf''] 1 init_locals =
     Inr (init_locals\<lparr>ascender := 5\<rparr>)"
  by (simp add: loop.simps body_def handlers_def handler_defs example_build_def init_locals_def
      atoi_def strtol_def number_defs Let_def)

subsection \<open>The modelled parts of the conversion\<close>

lemma bit_flip_byte: "bit (flip_byte b) n = (n < 8 \<and> bit b (7 - n))"
proof (cases "n < 8")
  case True
  then have "rev (map (bit b) [0..<8]) ! n = bit b (7 - n)"
    by (simp add: rev_nth)
  with True show ?thesis
    by (simp add: flip_byte_def bit_horner_sum_bit_word_iff)
next
  case False
  then show ?thesis
    by (simp add: flip_byte_def bit_horner_sum_bit_word_iff)
qed

lemma flip_byte_twice: "flip_byte (flip_byte b) = b"
proof (rule bit_eqI)
  fix n
  have "n < 8" if "bit b n"
    using that bit_imp_le_length [of b n] by simp
  then show "bit (flip_byte (flip_byte b)) n = bit b n"
    by (auto simp: bit_flip_byte)
qed

lemma flip_byte_example: "flip_byte 0x01 = 0x80" "flip_byte 0x7E = 0x7E" "flip_byte 0x1A = 0x58"
  by code_simp+

lemma lowest_Min: "cs \<noteq> [] \<Longrightarrow> lowest cs = Some (Min (set cs))"
  by (cases cs) (simp_all add: Min.set_eq_fold [symmetric])

lemma lowest_retained_bound:
  assumes "lo \<le> hi" and "g \<in> set gs" and "codepoint g = unat lo"
  shows "lowest_retained gs lo hi = Some (unat lo)"
proof -
  let ?cs = "map codepoint (survivors gs lo hi)"
  from assms have "retain (codepoint g) lo hi"
    by (simp add: retain_def word_le_nat_alt)
  with assms(2,3) have mem: "unat lo \<in> set ?cs"
    by (force simp: survivors_def)
  then have ne: "?cs \<noteq> []" by auto
  have "unat lo \<le> c" if "c \<in> set ?cs" for c
    using that by (auto simp: survivors_def retain_def)
  with mem have "Min (set ?cs) = unat lo"
    by (intro Min_eqI) auto
  with lowest_Min [OF ne] show ?thesis
    by (simp add: lowest_retained_def)
qed

lemma lowest_retained_Some:
  assumes "lowest_retained gs lo hi = Some c"
  shows "c \<in> codepoint ` set gs \<and> unat lo \<le> c"
proof -
  let ?cs = "map codepoint (survivors gs lo hi)"
  from assms have ne: "?cs \<noteq> []"
    by (auto simp: lowest_retained_def)
  with assms have "c = Min (set ?cs)"
    by (simp add: lowest_retained_def lowest_Min)
  with ne have "c \<in> set ?cs"
    by (metis List.finite_set Min_in set_empty)
  then show ?thesis
    by (auto simp: survivors_def retain_def)
qed

text \<open>The font that reaches the display driver is the one of lines 184 to 189.\<close>

lemma main_upload:
  assumes "Ossd_set_user_font f \<in> set (fst (main fuel B W argv))"
  shows "\<exists>v fnt. loop B argv 1 init_locals = Inr v
    \<and> bdf_convert W (argv ! (length argv - 1)) (gmin v) (gmax v) (ascender v) (flags v)
        = Some fnt
    \<and> f = user_font fnt v"
proof (cases "length argv < 2")
  case True
  with assms show ?thesis by (simp add: main_def)
next
  case False
  show ?thesis
  proof (cases "loop B argv 1 init_locals")
    case (Inl s)
    with False assms show ?thesis
      by (cases s) (simp_all add: main_def)
  next
    case (Inr v)
    with False assms have c: "Ossd_set_user_font f \<in> set (fst (convert fuel B W argv v))"
      by (simp add: main_def)
    have "\<exists>fnt. bdf_convert W (argv ! (length argv - 1)) (gmin v) (gmax v) (ascender v)
          (flags v) = Some fnt
      \<and> Ossd_set_user_font f \<in> set (fst (display fuel B W (argv ! (length argv - 1)) v fnt))"
    proof (cases "bdf_convert W (argv ! (length argv - 1)) (gmin v) (gmax v) (ascender v) (flags v)")
      case None
      with c show ?thesis by (simp add: convert_def Let_def)
    next
      case (Some fnt)
      obtain evs out where d: "display fuel B W (argv ! (length argv - 1)) v fnt = (evs, out)"
        by (cases "display fuel B W (argv ! (length argv - 1)) v fnt")
      with c Some have "Ossd_set_user_font f \<in> set evs"
        by (auto simp: convert_def Let_def split: if_splits)
      with d have "Ossd_set_user_font f
          \<in> set (fst (display fuel B W (argv ! (length argv - 1)) v fnt))" by simp
      with Some show ?thesis by blast
    qed
    then obtain fnt where fnt: "bdf_convert W (argv ! (length argv - 1)) (gmin v) (gmax v)
        (ascender v) (flags v) = Some fnt"
      and "Ossd_set_user_font f \<in> set (fst (display fuel B W (argv ! (length argv - 1)) v fnt))"
      by blast
    then have "f = user_font fnt v" by (simp add: display_upload)
    with Inr fnt show ?thesis by blast
  qed
qed

lemma example_loop_subset_display:
  "loop example_build [''bdfe'', ''-s'', ''65-66'', ''-d'', ''3D'', ''x.bdf''] 1 init_locals =
     Inr (init_locals\<lparr>flags := 0x80000000, i2c_address := 0x3D, gmin := 65, gmax := 66\<rparr>)"
  by (simp add: loop.simps body_def handlers_def handler_defs example_build_def init_locals_def
      parse_subset_def parse_address_def number_defs DISPLAY_FONT_def Let_def)

lemma example_run_subset_display:
  "fst (main 0 example_build (spec_world abc_glyphs)
      [''bdfe'', ''-s'', ''65-66'', ''-d'', ''3D'', ''x.bdf'']) =
     [Call_bdf_convert ''x.bdf'' 65 66 0 0x80000000, Pi2c_open, Pi2c_select 0x3D, Ossd_init 0,
      Ossd_set_user_font \<lparr> gw = 8, gh = 8, go = 65, gn = 2,
        font = [0x00, 0x00, 0x00, 0x7E, 0x00, 0x00, 0x00, 0x00,
                0x00, 0x00, 0x00, 0x7C, 0x00, 0x00, 0x00, 0x00] \<rparr>,
      Ossd_select_font_user,
      Ossd_putlx 0 (- 1) ''x.bdf'' [OSSD_TEXT_REVERSE],
      Ossd_putlx 7 (- 1) ''8x8'' [OSSD_TEXT_UNDERLINE, OSSD_TEXT_OVERLINE],
      Stdin_mode TERM_MODE_RAW, Fprintf_stderr prompt, Stdin_getch,
      Stdin_mode TERM_MODE_CAN, Pi2c_close, Free_font]"
  unfolding main_def example_loop_subset_display
  by (simp add: convert_def display_def user_font_def spec_world_def init_locals_def
      example_build_def DISPLAY_FONT_def basename_def printf_d_def dec.simps Let_def
      bdf_convert_spec_def lowest_retained_def survivors_def retain_def abc_glyphs_def)

lemma example_run_default_display:
  "fst (main 0 example_build (spec_world abc_glyphs) [''bdfe'', ''-d'', ''3D'', ''x.bdf'']) =
     [Call_bdf_convert ''x.bdf'' 32 126 0 0x80000000, Pi2c_open, Pi2c_select 0x3D, Ossd_init 0,
      Ossd_set_user_font \<lparr> gw = 8, gh = 8, go = 32, gn = 3,
        font = [0x00, 0x00, 0x00, 0x7E, 0x00, 0x00, 0x00, 0x00,
                0x00, 0x00, 0x00, 0x7C, 0x00, 0x00, 0x00, 0x00,
                0x00, 0x00, 0x00, 0x3C, 0x00, 0x00, 0x00, 0x00] \<rparr>,
      Ossd_select_font_user,
      Ossd_putlx 0 (- 1) ''x.bdf'' [OSSD_TEXT_REVERSE],
      Ossd_putlx 7 (- 1) ''8x8'' [OSSD_TEXT_UNDERLINE, OSSD_TEXT_OVERLINE],
      Stdin_mode TERM_MODE_RAW, Fprintf_stderr prompt, Stdin_getch,
      Stdin_mode TERM_MODE_CAN, Pi2c_close, Free_font]"
  unfolding main_def example_loop_display
  by (simp add: convert_def display_def user_font_def spec_world_def init_locals_def
      example_build_def DISPLAY_FONT_def basename_def printf_d_def dec.simps Let_def
      bdf_convert_spec_def lowest_retained_def survivors_def retain_def abc_glyphs_def)

subsection \<open>The default range\<close>

lemma short_a_with_value_nth:
  assumes "short_a_with_value xs" and "j < length xs" and "xs ! j = ''-a''"
  shows "Suc j < length xs \<and> isdigit (deref (xs ! Suc j))"
  using assms
proof (induction xs arbitrary: j rule: short_a_with_value.induct)
  case 1
  then show ?case by simp
next
  case (2 a)
  then show ?case by simp
next
  case (3 a b rest)
  show ?case
  proof (cases j)
    case 0
    with "3.prems" show ?thesis by simp
  next
    case (Suc k)
    with "3.prems" have "short_a_with_value (b # rest)" "k < length (b # rest)"
      "(b # rest) ! k = ''-a''" by simp_all
    then have "Suc k < length (b # rest) \<and> isdigit (deref ((b # rest) ! Suc k))"
      by (rule "3.IH")
    with Suc show ?thesis by simp
  qed
qed

lemma xdigit_not_range_option:
  assumes "isxdigit (deref s)"
  shows "s \<noteq> ''-s''" "s \<noteq> ''subset''" "s \<noteq> ''-a''"
  using assms by (auto simp: isxdigit_def isdigit_def)

lemma handlers_keeps_default:
  assumes "''all'' \<notin> set (tl argv)" and "h \<in> set (handlers B argv)"
  shows "rel (keeps_default argv) h"
  using assms(2)
proof (cases rule: handlers_cases)
  case 6
  have "argv ! Suc i \<notin> {''-s'', ''subset'', ''-a'', ''all''}"
    if "Suc i < length argv" "isxdigit (deref (argv ! Suc i))" for i
    using that xdigit_not_range_option [OF that(2)] nth_in_tl [of "Suc i" argv] assms(1)
    by auto
  with 6 show ?thesis
    by (auto simp: rel_def handler_defs keeps_default_def Let_def split: if_splits)
qed (auto simp: rel_def handler_defs keeps_default_def isdigit_def split: if_splits)

lemma body_keeps_default:
  assumes "''all'' \<notin> set (tl argv)" and "body B argv (i, v) = Inr (k, w)"
    and "1 \<le> i" and "i < length argv" and "argv ! i \<notin> {''-s'', ''subset'', ''-a'', ''all''}"
  shows "gmin w = gmin v \<and> gmax w = gmax v"
proof -
  have "keeps_default argv (i, v) (k, w)"
  proof (rule body_rel [OF _ _ handlers_keeps_default [OF assms(1)] assms(2)])
    show "keeps_default argv x x" for x by (simp add: keeps_default_def)
    show "keeps_default argv x y \<Longrightarrow> keeps_default argv y z \<Longrightarrow> keeps_default argv x z"
      for x y z
      by (simp add: keeps_default_def)
  qed
  with assms(3-5) show ?thesis by (simp add: keeps_default_def)
qed

lemma loop_keeps_default:
  assumes "set (tl argv) \<inter> {''-s'', ''subset'', ''all''} = {}"
    and "short_a_with_value (tl argv)"
    and "loop B argv i v = Inr r" and "1 \<le> i"
  shows "gmin r = gmin v \<and> gmax r = gmax v"
proof -
  have step: "gmin w' = gmin w \<and> gmax w' = gmax w"
    if "1 \<le> j" "j < length argv" "body B argv (j, w) = Inr (k, w')" for j w k w'
  proof (cases "argv ! j = ''-a''")
    case True
    from that(1,2) obtain m where m: "j = Suc m" "m < length (tl argv)" "tl argv ! m = argv ! j"
      by (cases j; cases argv) auto
    with True assms(2) have "Suc m < length (tl argv) \<and> isdigit (deref (tl argv ! Suc m))"
      by (intro short_a_with_value_nth) simp_all
    with m have "Suc j < length argv" "isdigit (deref (argv ! Suc j))"
      by (cases argv; auto)+
    from body_short_a_digit [OF this(1) True this(2), of B w] that(3) show ?thesis
      by auto
  next
    case False
    from nth_in_tl [OF that(1,2)] assms(1) False
    have "argv ! j \<notin> {''-s'', ''subset'', ''-a'', ''all''}" by auto
    moreover from assms(1) have "''all'' \<notin> set (tl argv)" by auto
    ultimately show ?thesis
      using that by (intro body_keeps_default) simp_all
  qed
  have "\<exists>k::nat. 1 \<le> k \<and> gmin r = gmin v \<and> gmax r = gmax v"
    using assms(3)
  proof (rule loop_inv [where P = "\<lambda>i w. 1 \<le> i \<and> gmin w = gmin v \<and> gmax w = gmax v"])
    show "1 \<le> i \<and> gmin v = gmin v \<and> gmax v = gmax v"
      using assms(4) by simp
    show "1 \<le> k + 1 \<and> gmin w' = gmin v \<and> gmax w' = gmax v"
      if "1 \<le> j \<and> gmin w = gmin v \<and> gmax w = gmax v" and "j < length argv"
        and "body B argv (j, w) = Inr (k, w')"
      for j w k w'
      using step [OF _ that(2,3)] that(1) by simp
  qed
  then show ?thesis by simp
qed

lemma example_loop_a_l:
  "loop example_build [''bdfe'', ''-a'', ''5'', ''-l'', ''x.bdf''] 1 init_locals =
     Inr (init_locals\<lparr>flags := 68, ascender := 5\<rparr>)"
  by (simp add: loop.simps body_def handlers_def handler_defs example_build_def init_locals_def
      atoi_def strtol_def number_defs Let_def)

section \<open>The claims\<close>

text \<open>
  C1, as the code has it. The first-codepoint offset of the converted font is the lowest
  retained codepoint. The glyph offset that \<open>main\<close> passes to the display driver is not
  taken from the font: it is the minimum of the requested range, \<open>gmin\<close>, cut to 8 bits
  (line 187). The two are the same exactly when \<open>gmin\<close> is below 256 and the font has a
  glyph for the codepoint \<open>gmin\<close>, as in the scenario of the subset 65-66 of a font with
  the codepoints 65, 66 and 67, where both are 65.
\<close>

theorem glyph_offset_is_range_minimum:
  assumes "bdf_convert W = bdf_convert_spec width bytes gs"
    and "Ossd_set_user_font f \<in> set (fst (main fuel B W argv))"
    and "Call_bdf_convert file lo hi asc fl \<in> set (fst (main fuel B W argv))"
  shows "\<exists>fnt. bdf_convert W file lo hi asc fl = Some fnt
    \<and> lowest_retained gs lo hi = Some (first_codepoint fnt)
    \<and> go f = ucast lo
    \<and> (unat (go f) = first_codepoint fnt) = (unat lo < 256 \<and> unat lo \<in> codepoint ` set gs)"
proof -
  from main_call [OF assms(3)] obtain v where run: "loop B argv 1 init_locals = Inr v"
    and v: "file = argv ! (length argv - 1)" "lo = gmin v" "hi = gmax v" "asc = ascender v"
      "fl = flags v" by blast
  from main_upload [OF assms(2)] run v obtain fnt
    where fnt: "bdf_convert W file lo hi asc fl = Some fnt" and f: "f = user_font fnt v"
    by auto
  from fnt assms(1) have first: "lowest_retained gs lo hi = Some (first_codepoint fnt)"
    by (auto simp: bdf_convert_spec_def Let_def split: option.splits)
  from f v have go: "go f = ucast lo" by (simp add: user_font_def)
  have cut: "unat (go f) = unat lo mod 256"
    by (simp add: go unsigned_ucast_eq take_bit_eq_mod)
  have "unat (go f) = first_codepoint fnt"
    if "unat lo < 256" and "unat lo \<in> codepoint ` set gs"
  proof -
    from that(2) obtain g where g: "g \<in> set gs" "codepoint g = unat lo" by auto
    from assms(3) have "lo \<le> hi" by (rule normalised_range)
    then have "lowest_retained gs lo hi = Some (unat lo)"
      using g by (rule lowest_retained_bound)
    with first that(1) show ?thesis by (simp add: cut)
  qed
  moreover have "unat lo < 256 \<and> unat lo \<in> codepoint ` set gs"
    if eq: "unat (go f) = first_codepoint fnt"
  proof -
    from lowest_retained_Some [OF first]
    have mem: "first_codepoint fnt \<in> codepoint ` set gs" and le: "unat lo \<le> first_codepoint fnt"
      by simp_all
    have "unat lo mod 256 \<le> unat lo" by simp
    with eq le have same: "unat lo mod 256 = unat lo" "first_codepoint fnt = unat lo"
      by (simp_all add: cut)
    have "unat lo mod 256 < 256" by simp
    with same mem show ?thesis by simp
  qed
  ultimately have "(unat (go f) = first_codepoint fnt)
      = (unat lo < 256 \<and> unat lo \<in> codepoint ` set gs)"
    by blast
  with fnt first go show ?thesis by blast
qed

theorem glyph_offset_is_range_minimum_witness:
  "bdf_convert (spec_world abc_glyphs) = bdf_convert_spec 8 8 abc_glyphs
   \<and> Ossd_set_user_font \<lparr> gw = 8, gh = 8, go = 65, gn = 2,
        font = [0x00, 0x00, 0x00, 0x7E, 0x00, 0x00, 0x00, 0x00,
                0x00, 0x00, 0x00, 0x7C, 0x00, 0x00, 0x00, 0x00] \<rparr>
       \<in> set (fst (main 0 example_build (spec_world abc_glyphs)
             [''bdfe'', ''-s'', ''65-66'', ''-d'', ''3D'', ''x.bdf'']))
   \<and> Call_bdf_convert ''x.bdf'' 65 66 0 0x80000000
       \<in> set (fst (main 0 example_build (spec_world abc_glyphs)
             [''bdfe'', ''-s'', ''65-66'', ''-d'', ''3D'', ''x.bdf'']))
   \<and> unat (65 :: 32 word) < 256 \<and> unat (65 :: 32 word) \<in> codepoint ` set abc_glyphs
   \<and> (\<exists>fnt. bdf_convert (spec_world abc_glyphs) ''x.bdf'' 65 66 0 0x80000000 = Some fnt
        \<and> lowest_retained abc_glyphs 65 66 = Some (first_codepoint fnt)
        \<and> (65 :: 8 word) = ucast (65 :: 32 word)
        \<and> unat (65 :: 8 word) = first_codepoint fnt)"
proof -
  have a: "bdf_convert (spec_world abc_glyphs) = bdf_convert_spec 8 8 abc_glyphs"
    by (simp add: spec_world_def)
  have b: "Ossd_set_user_font \<lparr> gw = 8, gh = 8, go = 65, gn = 2,
        font = [0x00, 0x00, 0x00, 0x7E, 0x00, 0x00, 0x00, 0x00,
                0x00, 0x00, 0x00, 0x7C, 0x00, 0x00, 0x00, 0x00] \<rparr>
       \<in> set (fst (main 0 example_build (spec_world abc_glyphs)
             [''bdfe'', ''-s'', ''65-66'', ''-d'', ''3D'', ''x.bdf'']))"
    by (simp add: example_run_subset_display)
  have c: "Call_bdf_convert ''x.bdf'' 65 66 0 0x80000000
       \<in> set (fst (main 0 example_build (spec_world abc_glyphs)
             [''bdfe'', ''-s'', ''65-66'', ''-d'', ''3D'', ''x.bdf'']))"
    by (simp add: example_run_subset_display)
  have d: "unat (65 :: 32 word) < 256 \<and> unat (65 :: 32 word) \<in> codepoint ` set abc_glyphs"
    by (simp add: abc_glyphs_def)
  from glyph_offset_is_range_minimum [OF a b c] d
  have "\<exists>fnt. bdf_convert (spec_world abc_glyphs) ''x.bdf'' 65 66 0 0x80000000 = Some fnt
        \<and> lowest_retained abc_glyphs 65 66 = Some (first_codepoint fnt)
        \<and> (65 :: 8 word) = ucast (65 :: 32 word)
        \<and> unat (65 :: 8 word) = first_codepoint fnt"
    by auto
  with a b c d show ?thesis by blast
qed

text \<open>
  C1, as the claim states it, fails: with the default range the font with the codepoints
  65, 66 and 67 keeps all three glyphs and its first-codepoint offset, the lowest
  retained codepoint, is 65, and the offset passed to the display driver is 32.
\<close>

theorem glyph_offset_counterexample:
  "Ossd_set_user_font \<lparr> gw = 8, gh = 8, go = 32, gn = 3,
        font = [0x00, 0x00, 0x00, 0x7E, 0x00, 0x00, 0x00, 0x00,
                0x00, 0x00, 0x00, 0x7C, 0x00, 0x00, 0x00, 0x00,
                0x00, 0x00, 0x00, 0x3C, 0x00, 0x00, 0x00, 0x00] \<rparr>
     \<in> set (fst (main 0 example_build (spec_world abc_glyphs)
           [''bdfe'', ''-d'', ''3D'', ''x.bdf'']))
   \<and> Call_bdf_convert ''x.bdf'' 32 126 0 0x80000000
     \<in> set (fst (main 0 example_build (spec_world abc_glyphs)
           [''bdfe'', ''-d'', ''3D'', ''x.bdf'']))
   \<and> bdf_convert (spec_world abc_glyphs) ''x.bdf'' 32 126 0 0x80000000 =
       Some \<lparr> bdfe_t.gw = 8, bpg = 8, chars = 3, first_codepoint = 65,
         bdfe_t.font = [0x00, 0x00, 0x00, 0x7E, 0x00, 0x00, 0x00, 0x00,
                0x00, 0x00, 0x00, 0x7C, 0x00, 0x00, 0x00, 0x00,
                0x00, 0x00, 0x00, 0x3C, 0x00, 0x00, 0x00, 0x00] \<rparr>
   \<and> lowest_retained abc_glyphs 32 126 = Some 65
   \<and> unat (32 :: 8 word) \<noteq> 65"
proof -
  have "lowest_retained abc_glyphs 32 126 = Some 65"
    by (simp add: lowest_retained_def survivors_def retain_def abc_glyphs_def)
  moreover have "bdf_convert (spec_world abc_glyphs) ''x.bdf'' 32 126 0 0x80000000 =
       Some \<lparr> bdfe_t.gw = 8, bpg = 8, chars = 3, first_codepoint = 65,
         bdfe_t.font = [0x00, 0x00, 0x00, 0x7E, 0x00, 0x00, 0x00, 0x00,
                0x00, 0x00, 0x00, 0x7C, 0x00, 0x00, 0x00, 0x00,
                0x00, 0x00, 0x00, 0x3C, 0x00, 0x00, 0x00, 0x00] \<rparr>"
    by (simp add: spec_world_def bdf_convert_spec_def lowest_retained_def survivors_def
        retain_def abc_glyphs_def)
  ultimately show ?thesis
    by (simp add: example_run_default_display)
qed

text \<open>
  C2, as the code has it. \<open>-a\<close> is the short form of the ascender option and of the
  all option, and the ascender statement comes first. When the argument after \<open>-a\<close>
  does not start with a digit, the all statement sets the full range, which reaches the
  conversion unless a subset option follows. When the argument after \<open>-a\<close> starts with a
  digit, the ascender statement takes it and moves the index to it, so the all statement
  does not see \<open>-a\<close>: the iteration sets the ascender and leaves the range as it was.
\<close>

theorem short_a_range:
  "(1 \<le> j \<and> Suc j < length argv \<and> argv ! j = ''-a'' \<and> \<not> isdigit (deref (argv ! Suc j))
      \<and> set (drop (Suc j) argv) \<inter> {''-s'', ''subset''} = {}
      \<and> Call_bdf_convert file lo hi asc fl \<in> set (fst (main fuel B W argv))
    \<longrightarrow> lo = 0 \<and> hi = 4294967295)
   \<and> (Suc i < length args \<and> args ! i = ''-a'' \<and> isdigit (deref (args ! Suc i))
    \<longrightarrow> body B args (i, v) = Inr (Suc i, v\<lparr>ascender := atoi (ULONG_MAX B) (args ! Suc i)\<rparr>))"
proof -
  have "lo = 0 \<and> hi = 4294967295"
    if j: "1 \<le> j" "j < length argv" "Suc j < length argv" "argv ! j = ''-a''"
      and nd: "\<not> isdigit (deref (argv ! Suc j))"
      and ns: "set (drop (Suc j) argv) \<inter> {''-s'', ''subset''} = {}"
      and call: "Call_bdf_convert file lo hi asc fl \<in> set (fst (main fuel B W argv))"
  proof -
    from main_call [OF call] obtain r where run: "loop B argv 1 init_locals = Inr r"
      and r: "lo = gmin r" "hi = gmax r" by blast
    from j(4) have "\<not> takes_value (argv ! (j - 1)) (argv ! j)" by simp
    from loop_visit [OF run j(1,2) this] obtain w where at: "loop B argv j w = Inr r" ..
    from at j(2) obtain k w' where b: "body B argv (j, w) = Inr (k, w')"
      and rest: "loop B argv (k + 1) w' = Inr r" by (rule loop_step)
    from b body_short_a [OF j(3,4) nd, of B w] have "k = j" "full_range w'"
      by (auto simp: full_range_def)
    with loop_keeps_full [OF none_after [OF ns] rest] have "full_range r" by simp
    with r show ?thesis by (simp add: full_range_def)
  qed
  moreover have "body B args (i, v) =
      Inr (Suc i, v\<lparr>ascender := atoi (ULONG_MAX B) (args ! Suc i)\<rparr>)"
    if "Suc i < length args" "args ! i = ''-a''" "isdigit (deref (args ! Suc i))"
    using that by (rule body_short_a_digit)
  ultimately show ?thesis by simp
qed

theorem short_a_range_witness:
  "((1 :: nat) \<le> 1 \<and> Suc 1 < length [''bdfe'', ''-a'', ''x.bdf'']
     \<and> [''bdfe'', ''-a'', ''x.bdf''] ! 1 = ''-a''
     \<and> \<not> isdigit (deref ([''bdfe'', ''-a'', ''x.bdf''] ! Suc 1))
     \<and> set (drop (Suc 1) [''bdfe'', ''-a'', ''x.bdf'']) \<inter> {''-s'', ''subset''} = {}
     \<and> Call_bdf_convert ''x.bdf'' 0 4294967295 0 0
         \<in> set (fst (main 0 example_build failing_world [''bdfe'', ''-a'', ''x.bdf''])))
   \<and> (Suc 1 < length [''bdfe'', ''-a'', ''5'', ''x.bdf'']
     \<and> [''bdfe'', ''-a'', ''5'', ''x.bdf''] ! 1 = ''-a''
     \<and> isdigit (deref ([''bdfe'', ''-a'', ''5'', ''x.bdf''] ! Suc 1)))
   \<and> ((0 :: 32 word) = 0 \<and> (4294967295 :: 32 word) = 4294967295)
   \<and> body example_build [''bdfe'', ''-a'', ''5'', ''x.bdf''] (1, init_locals) =
       Inr (Suc 1, init_locals\<lparr>ascender :=
         atoi (ULONG_MAX example_build) ([''bdfe'', ''-a'', ''5'', ''x.bdf''] ! Suc 1)\<rparr>)"
proof -
  have call: "Call_bdf_convert ''x.bdf'' 0 4294967295 0 0
         \<in> set (fst (main 0 example_build failing_world [''bdfe'', ''-a'', ''x.bdf'']))"
    unfolding main_def example_loop_a
    by (simp add: convert_def failing_world_def init_locals_def)
  have a: "(1 :: nat) \<le> 1 \<and> Suc 1 < length [''bdfe'', ''-a'', ''x.bdf'']
     \<and> [''bdfe'', ''-a'', ''x.bdf''] ! 1 = ''-a''
     \<and> \<not> isdigit (deref ([''bdfe'', ''-a'', ''x.bdf''] ! Suc 1))
     \<and> set (drop (Suc 1) [''bdfe'', ''-a'', ''x.bdf'']) \<inter> {''-s'', ''subset''} = {}
     \<and> Call_bdf_convert ''x.bdf'' 0 4294967295 0 0
         \<in> set (fst (main 0 example_build failing_world [''bdfe'', ''-a'', ''x.bdf'']))"
    using call by (simp add: isdigit_def)
  have b: "Suc 1 < length [''bdfe'', ''-a'', ''5'', ''x.bdf'']
     \<and> [''bdfe'', ''-a'', ''5'', ''x.bdf''] ! 1 = ''-a''
     \<and> isdigit (deref ([''bdfe'', ''-a'', ''5'', ''x.bdf''] ! Suc 1))"
    by (simp add: isdigit_def)
  from a b short_a_range [of 1 "[''bdfe'', ''-a'', ''x.bdf'']" "''x.bdf''" 0 4294967295 0 0 0
      example_build failing_world 1 "[''bdfe'', ''-a'', ''5'', ''x.bdf'']" init_locals]
  show ?thesis by blast
qed

text \<open>
  C2, as the claim states it, fails: with \<open>-a 5\<close> the ascender is 5 and the range is
  still the default 32..126.
\<close>

theorem short_a_counterexample:
  "''-a'' \<in> set (tl [''bdfe'', ''-a'', ''5'', ''x.bdf''])
   \<and> Call_bdf_convert ''x.bdf'' 32 126 5 0
       \<in> set (fst (main 0 example_build failing_world [''bdfe'', ''-a'', ''5'', ''x.bdf'']))
   \<and> \<not> ((32 :: 32 word) = 0 \<and> (126 :: 32 word) = 4294967295)"
  unfolding main_def example_loop_a_digit
  by (simp add: convert_def failing_world_def init_locals_def)

text \<open>
  C3. The short option \<open>-l\<close> is the short form of the line option and of the droplast
  option: whenever \<open>-l\<close> is among the arguments, the conversion is called with both
  the \<open>BDF_GPL\<close> and the \<open>BDF_DROPLAST\<close> bit set in its flags.
\<close>

theorem short_l_sets_both_flags:
  assumes "''-l'' \<in> set (tl argv)"
    and "Call_bdf_convert file lo hi asc fl \<in> set (fst (main fuel B W argv))"
  shows "fl AND BDF_GPL B = BDF_GPL B \<and> fl AND BDF_DROPLAST B = BDF_DROPLAST B"
proof -
  from main_call [OF assms(2)] obtain v where run: "loop B argv 1 init_locals = Inr v"
    and fl: "fl = flags v" by blast
  from in_tl_nth [OF assms(1)] obtain j where j: "1 \<le> j" "j < length argv" "argv ! j = ''-l''"
    by blast
  then have "\<not> takes_value (argv ! (j - 1)) (argv ! j)" by simp
  from loop_visit [OF run j(1,2) this] obtain w where at: "loop B argv j w = Inr v" ..
  from at j(2) obtain k w' where b: "body B argv (j, w) = Inr (k, w')"
    and rest: "loop B argv (k + 1) w' = Inr v" by (rule loop_step)
  from b body_short_l [OF j(2,3), of B w]
  have w': "w' = w\<lparr>flags := (flags w OR BDF_GPL B) OR BDF_DROPLAST B\<rparr>" by simp
  have "flags w' AND BDF_GPL B = BDF_GPL B" "flags w' AND BDF_DROPLAST B = BDF_DROPLAST B"
    by (simp_all add: w' or_has_bits)
  with rest have "flags v AND BDF_GPL B = BDF_GPL B \<and> flags v AND BDF_DROPLAST B = BDF_DROPLAST B"
    by (simp add: loop_keeps_flag)
  with fl show ?thesis by simp
qed

theorem short_l_sets_both_flags_witness:
  "''-l'' \<in> set (tl [''bdfe'', ''-l'', ''x.bdf''])
   \<and> Call_bdf_convert ''x.bdf'' 32 126 0 68
       \<in> set (fst (main 0 example_build failing_world [''bdfe'', ''-l'', ''x.bdf'']))
   \<and> (68 :: 32 word) AND BDF_GPL example_build = BDF_GPL example_build
   \<and> (68 :: 32 word) AND BDF_DROPLAST example_build = BDF_DROPLAST example_build"
proof -
  have a: "''-l'' \<in> set (tl [''bdfe'', ''-l'', ''x.bdf''])" by simp
  have b: "Call_bdf_convert ''x.bdf'' 32 126 0 68
       \<in> set (fst (main 0 example_build failing_world [''bdfe'', ''-l'', ''x.bdf'']))"
    unfolding main_def example_loop_l
    by (simp add: convert_def failing_world_def init_locals_def)
  from a b short_l_sets_both_flags [OF a b] show ?thesis by simp
qed

text \<open>
  C4. When the conversion fails (\<open>bdf_convert\<close> returns the null pointer), \<open>main\<close>
  reports it on the standard error, returns -1, a non-zero status, and does nothing
  else: the run consists of the call and the message.
\<close>

theorem failed_conversion_stops:
  assumes "2 \<le> length argv"
    and "loop B argv 1 init_locals = Inr v"
    and "bdf_convert W (argv ! (length argv - 1)) (gmin v) (gmax v) (ascender v) (flags v) = None"
  shows "main fuel B W argv =
    ([Call_bdf_convert (argv ! (length argv - 1)) (gmin v) (gmax v) (ascender v) (flags v),
      Fprintf_stderr (''Unable to convert '' @ [CHR 0x27] @ argv ! (length argv - 1)
        @ [CHR 0x27, CHR 0x0A])],
     Return (- 1))"
  using assms by (simp add: main_def convert_def Let_def)

theorem failed_conversion_stops_witness:
  "main 7 example_build failing_world [''bdfe'', ''x.bdf''] =
    ([Call_bdf_convert ''x.bdf'' 32 126 0 0,
      Fprintf_stderr (''Unable to convert '' @ [CHR 0x27] @ ''x.bdf'' @ [CHR 0x27, CHR 0x0A])],
     Return (- 1))"
proof -
  have a: "2 \<le> length [''bdfe'', ''x.bdf'']" by simp
  have c: "bdf_convert failing_world ([''bdfe'', ''x.bdf''] ! (length [''bdfe'', ''x.bdf''] - 1))
      (gmin init_locals) (gmax init_locals) (ascender init_locals) (flags init_locals) = None"
    by (simp add: failing_world_def)
  from failed_conversion_stops [OF a example_loop_plain c, of 7] show ?thesis
    by (simp add: init_locals_def)
qed




text \<open>
  C6. When no argument is a subset option or an all option (no \<open>-s\<close>, \<open>subset\<close> or
  \<open>all\<close>, and no \<open>-a\<close> but with a number after it, where it is the ascender option),
  the conversion is called with the range of the printable ASCII characters,
  \<open>gmin = 32\<close> and \<open>gmax = 126\<close>.
\<close>

theorem default_range:
  assumes "set (tl argv) \<inter> {''-s'', ''subset'', ''all''} = {}"
    and "short_a_with_value (tl argv)"
    and "Call_bdf_convert file lo hi asc fl \<in> set (fst (main fuel B W argv))"
  shows "lo = 32 \<and> hi = 126"
proof -
  from main_call [OF assms(3)] obtain v where run: "loop B argv 1 init_locals = Inr v"
    and v: "lo = gmin v" "hi = gmax v" by blast
  from loop_keeps_default [OF assms(1,2) run] v show ?thesis
    by (simp add: init_locals_def)
qed

theorem default_range_witness:
  "set (tl [''bdfe'', ''-a'', ''5'', ''-l'', ''x.bdf'']) \<inter> {''-s'', ''subset'', ''all''} = {}
   \<and> short_a_with_value (tl [''bdfe'', ''-a'', ''5'', ''-l'', ''x.bdf''])
   \<and> Call_bdf_convert ''x.bdf'' 32 126 5 68
       \<in> set (fst (main 0 example_build failing_world
             [''bdfe'', ''-a'', ''5'', ''-l'', ''x.bdf'']))
   \<and> (32 :: 32 word) = 32 \<and> (126 :: 32 word) = 126"
proof -
  have a: "set (tl [''bdfe'', ''-a'', ''5'', ''-l'', ''x.bdf''])
      \<inter> {''-s'', ''subset'', ''all''} = {}"
    by simp
  have b: "short_a_with_value (tl [''bdfe'', ''-a'', ''5'', ''-l'', ''x.bdf''])"
    by (simp add: isdigit_def)
  have c: "Call_bdf_convert ''x.bdf'' 32 126 5 68
       \<in> set (fst (main 0 example_build failing_world
             [''bdfe'', ''-a'', ''5'', ''-l'', ''x.bdf'']))"
    unfolding main_def example_loop_a_l
    by (simp add: convert_def failing_world_def init_locals_def)
  from a b c default_range [OF a b c] show ?thesis by simp
qed

text \<open>
  C7, as the code has it. The all mode is asked for by the argument \<open>all\<close>, where the
  loop comes to it as an option and not as the value of the option before it, and by
  \<open>-a\<close> with an argument after it that does not start with a digit. It sets the range
  to the full unsigned range, and a subset option with a number after it sets the range
  again. When no such subset option follows the request, the conversion is called with
  \<open>gmin = 0\<close> and \<open>gmax = 4294967295\<close>.
\<close>

theorem all_mode_full_range:
  assumes "j \<in> set (heads argv 1)"
    and "argv ! j = ''all''
      \<or> (argv ! j = ''-a'' \<and> Suc j < length argv \<and> \<not> isdigit (deref (argv ! Suc j)))"
    and "no_subset_value (drop (Suc j) argv)"
    and "Call_bdf_convert file lo hi asc fl \<in> set (fst (main fuel B W argv))"
  shows "lo = 0 \<and> hi = 4294967295"
proof -
  from main_call [OF assms(4)] obtain v where run: "loop B argv 1 init_locals = Inr v"
    and v: "lo = gmin v" "hi = gmax v" by blast
  from heads_bounds [OF assms(1)] have j: "j < length argv" by simp
  from loop_reaches [OF run assms(1)] obtain w where at: "loop B argv j w = Inr v" ..
  from at j obtain k w' where b: "body B argv (j, w) = Inr (k, w')"
    and rest: "loop B argv (k + 1) w' = Inr v" by (rule loop_step)
  from assms(2) have "body B argv (j, w) = Inr (j, w\<lparr>gmin := 0, gmax := 0xFFFFFFFF\<rparr>)"
  proof
    assume "argv ! j = ''all''"
    with j show ?thesis by (rule body_all)
  next
    assume "argv ! j = ''-a'' \<and> Suc j < length argv \<and> \<not> isdigit (deref (argv ! Suc j))"
    then show ?thesis by (simp add: body_short_a)
  qed
  with b have "k = j" "full_range w'"
    by (auto simp: full_range_def)
  with loop_keeps_full [OF no_subset_value_after [OF assms(3)] rest] have "full_range v"
    by simp
  with v show ?thesis by (simp add: full_range_def)
qed

theorem all_mode_full_range_witness:
  "3 \<in> set (heads [''bdfe'', ''-d'', ''display'', ''all'', ''-s'', ''x.bdf''] 1)
   \<and> ([''bdfe'', ''-d'', ''display'', ''all'', ''-s'', ''x.bdf''] ! 3 = ''all''
       \<or> ([''bdfe'', ''-d'', ''display'', ''all'', ''-s'', ''x.bdf''] ! 3 = ''-a''
          \<and> Suc 3 < length [''bdfe'', ''-d'', ''display'', ''all'', ''-s'', ''x.bdf'']
          \<and> \<not> isdigit (deref ([''bdfe'', ''-d'', ''display'', ''all'', ''-s'', ''x.bdf'']
                ! Suc 3))))
   \<and> no_subset_value (drop (Suc 3) [''bdfe'', ''-d'', ''display'', ''all'', ''-s'', ''x.bdf''])
   \<and> Call_bdf_convert ''x.bdf'' 0 4294967295 0 0x80000000
       \<in> set (fst (main 0 example_build failing_world
             [''bdfe'', ''-d'', ''display'', ''all'', ''-s'', ''x.bdf'']))
   \<and> (0 :: 32 word) = 0 \<and> (4294967295 :: 32 word) = 4294967295"
proof -
  have a: "3 \<in> set (heads [''bdfe'', ''-d'', ''display'', ''all'', ''-s'', ''x.bdf''] 1)"
    by (simp add: heads.simps takes_value_def isdigit_def isxdigit_def)
  have b: "[''bdfe'', ''-d'', ''display'', ''all'', ''-s'', ''x.bdf''] ! 3 = ''all''
       \<or> ([''bdfe'', ''-d'', ''display'', ''all'', ''-s'', ''x.bdf''] ! 3 = ''-a''
          \<and> Suc 3 < length [''bdfe'', ''-d'', ''display'', ''all'', ''-s'', ''x.bdf'']
          \<and> \<not> isdigit (deref ([''bdfe'', ''-d'', ''display'', ''all'', ''-s'', ''x.bdf'']
                ! Suc 3)))"
    by simp
  have c: "no_subset_value
      (drop (Suc 3) [''bdfe'', ''-d'', ''display'', ''all'', ''-s'', ''x.bdf''])"
    by (simp add: isdigit_def)
  have d: "Call_bdf_convert ''x.bdf'' 0 4294967295 0 0x80000000
       \<in> set (fst (main 0 example_build failing_world
             [''bdfe'', ''-d'', ''display'', ''all'', ''-s'', ''x.bdf'']))"
    unfolding main_def example_loop_display_all
    by (simp add: convert_def failing_world_def init_locals_def)
  from a b c d all_mode_full_range [OF a b c d] show ?thesis by simp
qed

text \<open>
  C7, as the claim states it, fails: this invocation asks for the all mode, and the
  subset option after it sets the range to 65..66.
\<close>

theorem all_mode_counterexample:
  "''all'' \<in> set (tl [''bdfe'', ''all'', ''-s'', ''65-66'', ''x.bdf''])
   \<and> Call_bdf_convert ''x.bdf'' 65 66 0 0
       \<in> set (fst (main 0 example_build failing_world
             [''bdfe'', ''all'', ''-s'', ''65-66'', ''x.bdf'']))
   \<and> \<not> ((65 :: 32 word) = 0 \<and> (66 :: 32 word) = 4294967295)"
  unfolding main_def example_loop_all_subset
  by (simp add: convert_def failing_world_def init_locals_def)




text \<open>
  C9. Flip is self-inverse: applying it twice to a glyph buffer gives back the bytes of
  the buffer.
\<close>

theorem flip_flip: "flip (flip buf) = buf"
  by (simp add: flip_def flip_byte_twice map_idI)

end
